theory Spec2Isabelle
  imports Main "HOL-Library.Sublist" "HOL-Library.Monad_Syntax"
begin

section \<open>Python strings and the character data of the interpreter\<close>

text \<open>
  A Python \<open>str\<close> is a sequence of Unicode code points, so a string is a list of
  code points (natural numbers) and its length counts code points. \<open>asc\<close> writes an
  ASCII literal of the source as such a list. The three non-ASCII characters the program
  logic depends on are U+20B9 (the rupee sign, 8377) and the two MICR glyphs U+2448
  (9288) and U+2446 (9286).
\<close>

type_synonym pystr = "nat list"

definition asc :: "string \<Rightarrow> pystr" where
  "asc s = map of_char s"

text \<open>
  The program reads the Unicode character database of the interpreter through
  \<open>\d\<close>, \<open>\s\<close> and \<open>\b\<close> of \<open>re\<close>, through \<open>int()\<close>, \<open>str.strip()\<close> and
  \<open>str.lower()\<close>, and through \<open>repr\<close> of a string inside a formatted container.
  The tables depend on the Unicode version of the interpreter, so they are a parameter:
  \<^item> \<open>decimal c\<close> is the digit value of a decimal digit \<open>c\<close> (what \<open>\d\<close> matches and
    \<open>int()\<close> reads), \<open>None\<close> for every other code point;
  \<^item> \<open>isspace c\<close> is \<open>str.isspace\<close>, the class of \<open>\s\<close> and of \<open>strip()\<close>;
  \<^item> \<open>isalnum c\<close> is \<open>str.isalnum\<close>; \<open>\w\<close> is this class and the underscore;
  \<^item> \<open>lower_char c\<close> is the lower-case mapping of one code point (it may be several
    code points);
  \<^item> \<open>repr_str s\<close> is \<open>repr\<close> of the string \<open>s\<close>.
\<close>

record runtime =
  decimal :: "nat \<Rightarrow> nat option"
  isspace :: "nat \<Rightarrow> bool"
  isalnum :: "nat \<Rightarrow> bool"
  lower_char :: "nat \<Rightarrow> pystr"
  repr_str :: "pystr \<Rightarrow> pystr"

definition is_digit :: "runtime \<Rightarrow> nat \<Rightarrow> bool" where
  "is_digit R c = (decimal R c \<noteq> None)"

definition is_word :: "runtime \<Rightarrow> nat \<Rightarrow> bool" where
  "is_word R c = (isalnum R c \<or> c = 95)"

definition is_micr_glyph :: "nat \<Rightarrow> bool" where
  "is_micr_glyph c = (c = 9288 \<or> c = 9286)"

text \<open>
  What every Unicode version fixes: the classes and the lower-case mapping on the ASCII
  range, the two MICR glyphs being symbols (neither digit, space nor word character),
  and no code point being both a decimal digit and white space.
\<close>

definition ascii_decimal :: "nat \<Rightarrow> nat option" where
  "ascii_decimal c = (if 48 \<le> c \<and> c \<le> 57 then Some (c - 48) else None)"

definition ascii_space :: "nat \<Rightarrow> bool" where
  "ascii_space c = ((9 \<le> c \<and> c \<le> 13) \<or> (28 \<le> c \<and> c \<le> 32))"

definition ascii_alnum :: "nat \<Rightarrow> bool" where
  "ascii_alnum c = ((48 \<le> c \<and> c \<le> 57) \<or> (65 \<le> c \<and> c \<le> 90) \<or> (97 \<le> c \<and> c \<le> 122))"

definition ascii_lower :: "nat \<Rightarrow> pystr" where
  "ascii_lower c = [if 65 \<le> c \<and> c \<le> 90 then c + 32 else c]"

definition conformant :: "runtime \<Rightarrow> bool" where
  "conformant R =
     ((\<forall>c. c < 128 \<longrightarrow> decimal R c = ascii_decimal c \<and> isspace R c = ascii_space c
           \<and> isalnum R c = ascii_alnum c \<and> lower_char R c = ascii_lower c)
      \<and> (\<forall>c. is_micr_glyph c \<longrightarrow> decimal R c = None \<and> \<not> isspace R c \<and> \<not> isalnum R c)
      \<and> (\<forall>c. \<not> (is_digit R c \<and> isspace R c)))"

text \<open>The character data restricted to ASCII: every other code point is in no class.\<close>

definition ascii_runtime :: runtime where
  "ascii_runtime =
     \<lparr> decimal = (\<lambda>c. if c < 128 then ascii_decimal c else None),
       isspace = (\<lambda>c. c < 128 \<and> ascii_space c),
       isalnum = (\<lambda>c. c < 128 \<and> ascii_alnum c),
       lower_char = (\<lambda>c. if c < 128 then ascii_lower c else [c]),
       repr_str = (\<lambda>s. 39 # s @ [39]) \<rparr>"

subsection \<open>String methods\<close>

definition strip :: "runtime \<Rightarrow> pystr \<Rightarrow> pystr" where
  "strip R s = rev (dropWhile (isspace R) (rev (dropWhile (isspace R) s)))"

definition startswith :: "pystr \<Rightarrow> pystr \<Rightarrow> bool" where
  "startswith s p = (take (length p) s = p)"

definition endswith :: "pystr \<Rightarrow> pystr \<Rightarrow> bool" where
  "endswith s p = (length p \<le> length s \<and> drop (length s - length p) s = p)"

definition lower :: "runtime \<Rightarrow> pystr \<Rightarrow> pystr" where
  "lower R s = concat (map (lower_char R) s)"

text \<open>
  \<open>sep.join(xs)\<close>, and \<open>s.split(sep)\<close> for a non-empty separator: the pieces between
  the occurrences of \<open>sep\<close>, found from the left without overlap. \<open>split_at sep cur s\<close>
  is the scan with \<open>cur\<close> the piece read so far.
\<close>

fun join :: "pystr \<Rightarrow> pystr list \<Rightarrow> pystr" where
  "join sep [] = []"
| "join sep [x] = x"
| "join sep (x # y # ys) = x @ sep @ join sep (y # ys)"

function split_at :: "pystr \<Rightarrow> pystr \<Rightarrow> pystr \<Rightarrow> pystr list" where
  "split_at sep cur [] = [cur]"
| "split_at sep cur (c # cs) =
     (if sep \<noteq> [] \<and> startswith (c # cs) sep
      then cur # split_at sep [] (drop (length sep) (c # cs))
      else split_at sep (cur @ [c]) cs)"
  by pat_completeness auto
termination
  by (relation "measure (\<lambda>(sep, cur, s). length s)") auto

definition split :: "pystr \<Rightarrow> pystr \<Rightarrow> pystr list" where
  "split s sep = split_at sep [] s"

text \<open>\<open>xs[i]\<close> raises IndexError out of range; \<open>None\<close> is the raise.\<close>

definition item :: "'a list \<Rightarrow> nat \<Rightarrow> 'a option" where
  "item xs i = (if i < length xs then Some (xs ! i) else None)"

subsection \<open>Integers and strings\<close>

text \<open>
  \<open>str(n)\<close> of a non-negative integer, and \<open>int(s)\<close> of a string of decimal digits.
  \<open>int\<close> raises ValueError (\<open>None\<close>) on the empty string, on a character that is
  not a decimal digit, and on a string of more than \<open>int_max_str_digits\<close> digits: the
  interpreter limits the length of a decimal conversion, leading zeros counted, and the
  program leaves the limit at its default of 4300. (\<open>int\<close> also reads a sign,
  surrounding white space and underscores; the program only passes it strings of
  digits.) The same limit holds for \<open>str\<close> of an integer, where it never applies:
  the integers the program writes were read by \<open>int\<close> or by \<open>json.loads\<close>, which
  reads them with \<open>int\<close>, hence from at most that many digits.
\<close>

definition int_max_str_digits :: nat where
  "int_max_str_digits = 4300"

function str_nat :: "nat \<Rightarrow> pystr" where
  "str_nat n = (if n < 10 then [48 + n] else str_nat (n div 10) @ [48 + n mod 10])"
  by pat_completeness auto
termination
  by (relation "measure id") auto

declare str_nat.simps [simp del]

fun int_from :: "runtime \<Rightarrow> nat \<Rightarrow> pystr \<Rightarrow> nat option" where
  "int_from R a [] = Some a"
| "int_from R a (c # cs) =
     (case decimal R c of None \<Rightarrow> None | Some d \<Rightarrow> int_from R (10 * a + d) cs)"

definition py_int :: "runtime \<Rightarrow> pystr \<Rightarrow> nat option" where
  "py_int R s = (if s = [] \<or> int_max_str_digits < length s then None else int_from R 0 s)"

section \<open>Decoded JSON values\<close>

text \<open>
  What \<open>json.loads\<close> returns: \<open>None\<close>, a bool, an int, a float, a str, a list or a
  dict. The program observes a float only through its truth value and its \<open>str()\<close>,
  so \<open>JFloat t s\<close> carries these two. A dict is an association list read by
  \<open>map_of\<close> (one entry per key).
\<close>

datatype json =
    JNull
  | JBool bool
  | JInt int
  | JFloat bool pystr
  | JStr pystr
  | JArr "json list"
  | JObj "(pystr \<times> json) list"

text \<open>Truth value of a Python object (\<open>if x\<close>, \<open>not x\<close>, \<open>filter(None, ...)\<close>).\<close>

fun truthy :: "json \<Rightarrow> bool" where
  "truthy JNull = False"
| "truthy (JBool b) = b"
| "truthy (JInt i) = (i \<noteq> 0)"
| "truthy (JFloat t s) = t"
| "truthy (JStr s) = (s \<noteq> [])"
| "truthy (JArr xs) = (xs \<noteq> [])"
| "truthy (JObj kvs) = (kvs \<noteq> [])"

fun py_repr :: "runtime \<Rightarrow> json \<Rightarrow> pystr" where
  "py_repr R JNull = asc ''None''"
| "py_repr R (JBool b) = (if b then asc ''True'' else asc ''False'')"
| "py_repr R (JInt i) = (if i < 0 then 45 # str_nat (nat (- i)) else str_nat (nat i))"
| "py_repr R (JFloat t s) = s"
| "py_repr R (JStr s) = repr_str R s"
| "py_repr R (JArr xs) = 91 # join (asc '', '') (map (py_repr R) xs) @ [93]"
| "py_repr R (JObj kvs) =
     123 # join (asc '', '')
             (map (\<lambda>kv. repr_str R (fst kv) @ asc '': '' @ py_repr R (snd kv)) kvs) @ [125]"

text \<open>\<open>str(x)\<close>, also what an f-string writes for \<open>{x}\<close>.\<close>

definition py_str :: "runtime \<Rightarrow> json \<Rightarrow> pystr" where
  "py_str R x = (case x of JStr s \<Rightarrow> s | _ \<Rightarrow> py_repr R x)"

text \<open>
  \<open>d.get(k, default)\<close> and \<open>d[k]\<close>. \<open>None\<close> is the raise: AttributeError when the
  decoded value is not a dict (it has no \<open>get\<close>), TypeError or KeyError for the
  subscript.
\<close>

definition dict_get :: "json \<Rightarrow> pystr \<Rightarrow> json \<Rightarrow> json option" where
  "dict_get d k dflt =
     (case d of
        JObj kvs \<Rightarrow> Some (case map_of kvs k of None \<Rightarrow> dflt | Some v \<Rightarrow> v)
      | _ \<Rightarrow> None)"

definition dict_item :: "json \<Rightarrow> pystr \<Rightarrow> json option" where
  "dict_item d k = (case d of JObj kvs \<Rightarrow> map_of kvs k | _ \<Rightarrow> None)"

section \<open>Regular expressions\<close>

text \<open>
  The two patterns of the program are sequences of a character class with a greedy
  quantifier (one, \<open>*\<close>, \<open>+\<close>, \<open>{n}\<close>), one of them a capturing group, and the
  assertion \<open>\b\<close>. \<open>match_here\<close> is the backtracking matcher of \<open>re\<close> on such a
  sequence, anchored at position \<open>p\<close>: each quantifier tries the longest repetition
  first and gives characters back until the rest of the pattern matches. It returns
  the end of the match and the captured groups.
\<close>

datatype atom =
    One "nat \<Rightarrow> bool"
  | Star "nat \<Rightarrow> bool"
  | Plus "nat \<Rightarrow> bool"
  | Times nat "nat \<Rightarrow> bool"

datatype rx_item = Plain atom | Capture atom | WordBoundary

fun atom_class :: "atom \<Rightarrow> nat \<Rightarrow> bool" where
  "atom_class (One C) = C"
| "atom_class (Star C) = C"
| "atom_class (Plus C) = C"
| "atom_class (Times n C) = C"

text \<open>
  The repetition counts a quantifier tries, in the order it tries them, when \<open>run\<close>
  characters of its class follow.
\<close>

fun reps :: "atom \<Rightarrow> nat \<Rightarrow> nat list" where
  "reps (One C) run = (if 1 \<le> run then [1] else [])"
| "reps (Star C) run = rev [0..<Suc run]"
| "reps (Plus C) run = rev [1..<Suc run]"
| "reps (Times n C) run = (if n \<le> run then [n] else [])"

definition run_length :: "(nat \<Rightarrow> bool) \<Rightarrow> pystr \<Rightarrow> nat \<Rightarrow> nat" where
  "run_length C s p = length (takeWhile C (drop p s))"

fun first_success :: "(nat \<Rightarrow> 'a option) \<Rightarrow> nat list \<Rightarrow> 'a option" where
  "first_success f [] = None"
| "first_success f (k # ks) = (case f k of Some r \<Rightarrow> Some r | None \<Rightarrow> first_success f ks)"

text \<open>\<open>\b\<close>: exactly one of the characters before and after the position is a word character.\<close>

definition word_boundary :: "runtime \<Rightarrow> pystr \<Rightarrow> nat \<Rightarrow> bool" where
  "word_boundary R s p =
     ((0 < p \<and> p \<le> length s \<and> is_word R (s ! (p - 1))) \<noteq> (p < length s \<and> is_word R (s ! p)))"

fun match_here :: "runtime \<Rightarrow> rx_item list \<Rightarrow> pystr \<Rightarrow> nat \<Rightarrow> (nat \<times> pystr list) option" where
  "match_here R [] s p = Some (p, [])"
| "match_here R (WordBoundary # its) s p =
     (if word_boundary R s p then match_here R its s p else None)"
| "match_here R (Plain a # its) s p =
     first_success (\<lambda>k. match_here R its s (p + k)) (reps a (run_length (atom_class a) s p))"
| "match_here R (Capture a # its) s p =
     first_success
       (\<lambda>k. map_option (\<lambda>(e, gs). (e, take k (drop p s) # gs)) (match_here R its s (p + k)))
       (reps a (run_length (atom_class a) s p))"

text \<open>
  \<open>re.findall(pattern, s)\<close>: the matches from the left, without overlap; each is the
  text of the group when the pattern has one, the whole match otherwise. (After an empty
  match the scan moves on by one character; neither pattern of the program matches the
  empty string.)
\<close>

function findall_from :: "runtime \<Rightarrow> rx_item list \<Rightarrow> pystr \<Rightarrow> nat \<Rightarrow> pystr list" where
  "findall_from R pat s p =
     (if length s < p then []
      else case match_here R pat s p of
             None \<Rightarrow> findall_from R pat s (Suc p)
           | Some (e, gs) \<Rightarrow>
               (case gs of [] \<Rightarrow> take (e - p) (drop p s) | g # _ \<Rightarrow> g)
                 # findall_from R pat s (if p < e then e else Suc p))"
  by pat_completeness auto
termination
  by (relation "measure (\<lambda>(R, pat, s, p). Suc (length s) - p)") auto

declare findall_from.simps [simp del]

definition findall :: "runtime \<Rightarrow> rx_item list \<Rightarrow> pystr \<Rightarrow> pystr list" where
  "findall R pat s = findall_from R pat s 0"

section \<open>Helper functions (lines 42-80)\<close>

text \<open>The pattern of line 47: a MICR glyph, \<open>\s*\<close>, the group \<open>(\d+)\<close>, \<open>\s*\<close>, a MICR glyph.\<close>

definition micr_pattern :: "runtime \<Rightarrow> rx_item list" where
  "micr_pattern R =
     [Plain (One is_micr_glyph), Plain (Star (isspace R)), Capture (Plus (is_digit R)),
      Plain (Star (isspace R)), Plain (One is_micr_glyph)]"

text \<open>The pattern of line 54: \<open>\b\d{6}\b\<close>.\<close>

definition six_digit_pattern :: "runtime \<Rightarrow> rx_item list" where
  "six_digit_pattern R = [WordBoundary, Plain (Times 6 (is_digit R)), WordBoundary]"

text \<open>
  The argument is whatever the decoded reply holds under \<open>micr_code\<close>. A value that is
  not a string and not falsy makes \<open>re.findall\<close> raise TypeError (\<open>None\<close>).
\<close>

definition extract_cheque_number_from_micr :: "runtime \<Rightarrow> json \<Rightarrow> pystr option" where
  "extract_cheque_number_from_micr R micr_code =
     (if \<not> truthy micr_code then Some []
      else case micr_code of
             JStr s \<Rightarrow>
               (let parts = findall R (micr_pattern R) s in
                if 1 \<le> length parts then item parts 0
                else let fallback = findall R (six_digit_pattern R) s in
                     if fallback \<noteq> [] then item fallback 0 else Some [])
           | _ \<Rightarrow> None)"

text \<open>
  The loop of lines 75-78: \<open>group_loop remaining n formatted\<close> runs the iterations
  \<open>i = n - 1, ..., 0\<close>.
\<close>

fun group_loop :: "pystr \<Rightarrow> nat \<Rightarrow> pystr \<Rightarrow> pystr" where
  "group_loop remaining 0 formatted = formatted"
| "group_loop remaining (Suc i) formatted =
     (let formatted = remaining ! i # formatted;
          formatted = (if 0 < i \<and> (length remaining - i) mod 2 = 0
                       then 44 # formatted else formatted)
      in group_loop remaining i formatted)"

definition format_indian_currency :: "runtime \<Rightarrow> json \<Rightarrow> pystr option" where
  "format_indian_currency R amount_str =
     (if \<not> truthy amount_str then Some []
      else let digits = filter (is_digit R) (py_str R amount_str) in
        if digits = [] then Some []
        else do {
          amount \<leftarrow> py_int R digits;
          let s = str_nat amount;
          let s = (if 3 < length s
                   then let last_three = drop (length s - 3) s;
                            remaining = take (length s - 3) s;
                            formatted = group_loop remaining (length remaining) []
                        in formatted @ [44] @ last_three
                   else s);
          Some ([8377, 32] @ s @ asc ''/-'')
        })"

section \<open>The environment of a request\<close>

text \<open>
  The collaborators of the program are outside the source: the upload storage of the web
  framework, the PDF rasterizer, the image library, the extraction service, the JSON
  decoder and the clock. For one request they are a record of outcomes. A call that can
  raise returns \<open>Inl\<close> of the text \<open>str(e)\<close> of its exception (for the calls inside
  the \<open>try\<close> blocks of the normalizers, whose exceptions are only printed, \<open>None\<close>).
  \<^item> \<open>strftime_now\<close>: \<open>datetime.now().strftime('%Y%m%d_%H%M%S')\<close> in the handler;
  \<^item> \<open>isoformat_now\<close>: \<open>datetime.now().isoformat()\<close> in the normalizer;
  \<^item> \<open>save_error path\<close>: the exception of \<open>file.save(path)\<close>, if it raises;
  \<^item> \<open>convert_from_path content dpi\<close>: the page images of the PDF stored with this
    content (\<open>None\<close>: no such file), or the exception;
  \<^item> \<open>jpeg_save_error img path\<close> and \<open>jpeg_encode img\<close>: \<open>img.save(path, 'JPEG')\<close>;
  \<^item> \<open>image_open content\<close>: \<open>Image.open\<close> on a file with this content;
  \<^item> \<open>generate_content kind img\<close>: the text of the reply of the service to the prompt
    of this document type (the constants of lines 90-129, 187-238 and 292-342) and the
    image; \<open>None\<close> when the call or reading \<open>response.text\<close> raises;
  \<^item> \<open>json_loads\<close>: \<open>json.loads\<close>, \<open>None\<close> when it raises;
  \<^item> \<open>remove_error path\<close>: the exception of \<open>os.remove(path)\<close> for a file that
    exists, if it raises.
\<close>

type_synonym blob = "nat list"
type_synonym image = "nat list"
type_synonym record_dict = "(pystr \<times> json) list"

datatype doctype = Cheque | Gst | Passbook

record env =
  strftime_now :: pystr
  isoformat_now :: pystr
  save_error :: "pystr \<Rightarrow> pystr option"
  convert_from_path :: "blob option \<Rightarrow> nat \<Rightarrow> pystr + image list"
  jpeg_save_error :: "image \<Rightarrow> pystr \<Rightarrow> pystr option"
  jpeg_encode :: "image \<Rightarrow> blob"
  image_open :: "blob \<Rightarrow> pystr + image"
  generate_content :: "doctype \<Rightarrow> image \<Rightarrow> pystr option"
  json_loads :: "pystr \<Rightarrow> json option"
  remove_error :: "pystr \<Rightarrow> pystr option"

text \<open>
  The state a handler changes: the files on disk, and the log of the calls it made to
  its collaborators (in the order made).
\<close>

datatype event =
    Save pystr
  | Rasterize pystr nat
  | SaveJpeg pystr
  | OpenImage pystr
  | Generate doctype
  | Remove pystr

record world =
  disk :: "pystr \<rightharpoonup> blob"
  calls :: "event list"

type_synonym 'a io = "world \<Rightarrow> (pystr + 'a) \<times> world"

text \<open>Sequencing: an exception of the first step skips the rest.\<close>

definition bind_io :: "'a io \<Rightarrow> ('a \<Rightarrow> 'b io) \<Rightarrow> 'b io" where
  "bind_io m f w = (case m w of (Inl e, w') \<Rightarrow> (Inl e, w') | (Inr x, w') \<Rightarrow> f x w')"

definition log_call :: "event \<Rightarrow> world \<Rightarrow> world" where
  "log_call ev w = w\<lparr>calls := calls w @ [ev]\<rparr>"

definition file_not_found :: "runtime \<Rightarrow> pystr \<Rightarrow> pystr" where
  "file_not_found R path = asc ''[Errno 2] No such file or directory: '' @ repr_str R path"

definition file_save :: "env \<Rightarrow> pystr \<Rightarrow> blob \<Rightarrow> unit io" where
  "file_save E path bytes w =
     (case save_error E path of
        Some e \<Rightarrow> (Inl e, log_call (Save path) w)
      | None \<Rightarrow> (Inr (), log_call (Save path) (w\<lparr>disk := (disk w)(path \<mapsto> bytes)\<rparr>)))"

definition rasterize :: "env \<Rightarrow> pystr \<Rightarrow> nat \<Rightarrow> (image list) io" where
  "rasterize E path dpi w = (convert_from_path E (disk w path) dpi, log_call (Rasterize path dpi) w)"

definition first_page :: "image list \<Rightarrow> image io" where
  "first_page images w =
     (case images of [] \<Rightarrow> (Inl (asc ''list index out of range''), w) | img # _ \<Rightarrow> (Inr img, w))"

definition image_save_jpeg :: "env \<Rightarrow> image \<Rightarrow> pystr \<Rightarrow> unit io" where
  "image_save_jpeg E img path w =
     (case jpeg_save_error E img path of
        Some e \<Rightarrow> (Inl e, log_call (SaveJpeg path) w)
      | None \<Rightarrow> (Inr (), log_call (SaveJpeg path) (w\<lparr>disk := (disk w)(path \<mapsto> jpeg_encode E img)\<rparr>)))"

definition os_remove :: "runtime \<Rightarrow> env \<Rightarrow> pystr \<Rightarrow> unit io" where
  "os_remove R E path w =
     (case disk w path of
        None \<Rightarrow> (Inl (file_not_found R path), log_call (Remove path) w)
      | Some _ \<Rightarrow>
          (case remove_error E path of
             Some e \<Rightarrow> (Inl e, log_call (Remove path) w)
           | None \<Rightarrow> (Inr (), log_call (Remove path) (w\<lparr>disk := (disk w)(path := None)\<rparr>))))"

definition open_image :: "runtime \<Rightarrow> env \<Rightarrow> pystr \<Rightarrow> image io" where
  "open_image R E path w =
     (case disk w path of
        None \<Rightarrow> (Inl (file_not_found R path), log_call (OpenImage path) w)
      | Some bytes \<Rightarrow> (image_open E bytes, log_call (OpenImage path) w))"

section \<open>The normalizers (lines 84-403)\<close>

subsection \<open>Unwrapping and decoding the reply (lines 133-140, 242-249, 346-353)\<close>

definition fence :: pystr where
  "fence = [96, 96, 96]"

definition fence_json :: pystr where
  "fence_json = fence @ asc ''json''"

definition unwrap :: "runtime \<Rightarrow> pystr \<Rightarrow> pystr option" where
  "unwrap R text =
     (let json_text = strip R text in
      if startswith json_text fence_json then do {
        a \<leftarrow> item (split json_text fence_json) 1;
        b \<leftarrow> item (split a fence) 0;
        Some (strip R b)
      } else if startswith json_text fence then do {
        a \<leftarrow> item (split json_text fence) 1;
        b \<leftarrow> item (split a fence) 0;
        Some (strip R b)
      } else Some json_text)"

definition parse_reply :: "runtime \<Rightarrow> env \<Rightarrow> pystr \<Rightarrow> json option" where
  "parse_reply R E text = do { json_text \<leftarrow> unwrap R text; json_loads E json_text }"

subsection \<open>Building the records\<close>

text \<open>One entry \<open>'k': extracted.get('k', '')\<close> of a dict display.\<close>

definition field :: "json \<Rightarrow> string \<Rightarrow> (pystr \<times> json) option" where
  "field extracted k = map_option (\<lambda>v. (asc k, v)) (dict_get extracted (asc k) (JStr []))"

text \<open>Lines 142-165.\<close>

definition cheque_record :: "runtime \<Rightarrow> env \<Rightarrow> json \<Rightarrow> record_dict option" where
  "cheque_record R E extracted = do {
     micr_code \<leftarrow> dict_get extracted (asc ''micr_code'') (JStr []);
     cheque_number \<leftarrow> extract_cheque_number_from_micr R micr_code;
     amount_num \<leftarrow> dict_get extracted (asc ''amount_numbers'') (JStr []);
     formatted_amount \<leftarrow>
       (if truthy amount_num then format_indian_currency R amount_num else Some []);
     those
       [Some (asc ''document_type'', JStr (asc ''cheque'')),
        field extracted ''bank_name'',
        field extracted ''account_holder_name'',
        field extracted ''payee_name'',
        field extracted ''amount_words'',
        Some (asc ''amount_numbers'', amount_num),
        Some (asc ''amount_formatted'', JStr formatted_amount),
        field extracted ''date'',
        field extracted ''account_number'',
        field extracted ''ifsc_code'',
        Some (asc ''micr_code'', micr_code),
        Some (asc ''cheque_number'', JStr cheque_number),
        field extracted ''prefix_number'',
        field extracted ''branch_name'',
        field extracted ''branch_code'',
        Some (asc ''extracted_at'', JStr (isoformat_now E))]
   }"

text \<open>Lines 251-271.\<close>

definition passbook_record :: "runtime \<Rightarrow> env \<Rightarrow> json \<Rightarrow> record_dict option" where
  "passbook_record R E extracted =
     those
       [Some (asc ''document_type'', JStr (asc ''passbook'')),
        field extracted ''cif_number'',
        field extracted ''account_number'',
        field extracted ''customer_name'',
        field extracted ''father_husband_name'',
        field extracted ''address'',
        field extracted ''phone'',
        field extracted ''email'',
        field extracted ''date_of_birth'',
        field extracted ''minor_status'',
        field extracted ''nominee_reg_number'',
        field extracted ''branch_name'',
        field extracted ''branch_code'',
        field extracted ''ifsc_code'',
        field extracted ''micr_code'',
        field extracted ''account_type'',
        field extracted ''date_of_issue'',
        field extracted ''date_of_activation'',
        Some (asc ''extracted_at'', JStr (isoformat_now E))]"

text \<open>
  Lines 355-367. \<open>append_labelled\<close> is one of the first two \<open>if\<close> statements (the
  value written through an f-string after a label), \<open>append_plain\<close> one of the last
  three (the value itself). \<open>join_values\<close> is \<open>sep.join\<close>, which raises TypeError on
  an element that is not a string.
\<close>

definition append_labelled :: "runtime \<Rightarrow> json \<Rightarrow> string \<Rightarrow> string \<Rightarrow> json list \<Rightarrow> json list option" where
  "append_labelled R extracted k label address_parts = do {
     v \<leftarrow> dict_get extracted (asc k) JNull;
     if truthy v then do {
       x \<leftarrow> dict_item extracted (asc k);
       Some (address_parts @ [JStr (asc label @ py_str R x)])
     } else Some address_parts
   }"

definition append_plain :: "json \<Rightarrow> string \<Rightarrow> json list \<Rightarrow> json list option" where
  "append_plain extracted k address_parts = do {
     v \<leftarrow> dict_get extracted (asc k) JNull;
     if truthy v then do {
       x \<leftarrow> dict_item extracted (asc k);
       Some (address_parts @ [x])
     } else Some address_parts
   }"

fun str_items :: "json list \<Rightarrow> pystr list option" where
  "str_items [] = Some []"
| "str_items (JStr s # xs) = map_option ((#) s) (str_items xs)"
| "str_items (_ # xs) = None"

definition join_values :: "pystr \<Rightarrow> json list \<Rightarrow> pystr option" where
  "join_values sep xs = map_option (join sep) (str_items xs)"

text \<open>Lines 355-393.\<close>

definition gst_record :: "runtime \<Rightarrow> env \<Rightarrow> json \<Rightarrow> record_dict option" where
  "gst_record R E extracted = do {
     address_parts \<leftarrow> append_labelled R extracted ''floor_number'' ''Floor: '' [];
     address_parts \<leftarrow> append_labelled R extracted ''building_number'' ''Building: '' address_parts;
     address_parts \<leftarrow> append_plain extracted ''premises_name'' address_parts;
     address_parts \<leftarrow> append_plain extracted ''road_street'' address_parts;
     address_parts \<leftarrow> append_plain extracted ''locality'' address_parts;
     full_address \<leftarrow> join_values (asc '', '') (filter truthy address_parts);
     those
       [Some (asc ''document_type'', JStr (asc ''gst_certificate'')),
        field extracted ''registration_number'',
        field extracted ''legal_name'',
        field extracted ''trade_name'',
        field extracted ''constitution'',
        field extracted ''floor_number'',
        field extracted ''building_number'',
        field extracted ''premises_name'',
        field extracted ''road_street'',
        field extracted ''locality'',
        Some (asc ''full_address'', JStr full_address),
        field extracted ''city'',
        field extracted ''district'',
        field extracted ''state'',
        field extracted ''pin_code'',
        field extracted ''validity_from'',
        field extracted ''validity_to'',
        field extracted ''registration_type'',
        field extracted ''approving_officer'',
        field extracted ''designation'',
        field extracted ''office'',
        field extracted ''issue_date'',
        Some (asc ''extracted_at'', JStr (isoformat_now E))]
   }"

fun build_record :: "doctype \<Rightarrow> runtime \<Rightarrow> env \<Rightarrow> json \<Rightarrow> record_dict option" where
  "build_record Cheque = cheque_record"
| "build_record Gst = gst_record"
| "build_record Passbook = passbook_record"

subsection \<open>The three normalizers\<close>

text \<open>
  The three functions have one shape: \<open>Image.open\<close> before the \<open>try\<close> (its exception
  leaves the function), then inside the \<open>try\<close> the call of the service, the unwrapping,
  the decoding and the record; \<open>except Exception\<close> returns \<open>None\<close>.
\<close>

definition normalize_reply :: "doctype \<Rightarrow> runtime \<Rightarrow> env \<Rightarrow> pystr \<Rightarrow> record_dict option" where
  "normalize_reply kind R E text = do {
     extracted \<leftarrow> parse_reply R E text;
     build_record kind R E extracted
   }"

definition extract_with_gemini :: "doctype \<Rightarrow> runtime \<Rightarrow> env \<Rightarrow> pystr \<Rightarrow> (record_dict option) io" where
  "extract_with_gemini kind R E image_path =
     bind_io (open_image R E image_path) (\<lambda>img w.
       (Inr (do { text \<leftarrow> generate_content E kind img; normalize_reply kind R E text }),
        log_call (Generate kind) w))"

definition extract_cheque_with_gemini :: "runtime \<Rightarrow> env \<Rightarrow> pystr \<Rightarrow> (record_dict option) io" where
  "extract_cheque_with_gemini = extract_with_gemini Cheque"

definition extract_passbook_with_gemini :: "runtime \<Rightarrow> env \<Rightarrow> pystr \<Rightarrow> (record_dict option) io" where
  "extract_passbook_with_gemini = extract_with_gemini Passbook"

definition extract_gst_with_gemini :: "runtime \<Rightarrow> env \<Rightarrow> pystr \<Rightarrow> (record_dict option) io" where
  "extract_gst_with_gemini = extract_with_gemini Gst"

section \<open>The request handlers (lines 435-601)\<close>

record upload =
  filename :: pystr
  content :: blob

text \<open>\<open>request.files\<close>: reading it can raise (\<open>Inl\<close>), for instance on a body over the size limit.\<close>

record request =
  files :: "pystr + (pystr \<rightharpoonup> upload)"

record response =
  status :: nat
  success :: bool
  error :: "pystr option"
  message :: pystr
  data :: "record_dict option"

fun upload_message :: "doctype \<Rightarrow> pystr" where
  "upload_message Cheque = asc ''Please upload a cheque image or PDF''"
| "upload_message Gst = asc ''Please upload a GST certificate image or PDF''"
| "upload_message Passbook = asc ''Please upload a passbook image or PDF''"

fun failure_message :: "doctype \<Rightarrow> pystr" where
  "failure_message Cheque =
     asc ''Failed to extract cheque data. Please ensure the image is clear and readable.''"
| "failure_message Gst =
     asc ''Failed to extract GST data. Please ensure the certificate is clear and readable.''"
| "failure_message Passbook =
     asc ''Failed to extract passbook data. Please ensure the cover page is clear and readable.''"

fun success_message :: "doctype \<Rightarrow> pystr" where
  "success_message Cheque = asc ''Cheque data extracted successfully''"
| "success_message Gst = asc ''GST certificate data extracted successfully''"
| "success_message Passbook = asc ''Passbook data extracted successfully''"

definition bad_request :: "pystr \<Rightarrow> pystr \<Rightarrow> response" where
  "bad_request err msg =
     \<lparr>status = 400, success = False, error = Some err, message = msg, data = None\<rparr>"

definition extraction_failed :: "doctype \<Rightarrow> response" where
  "extraction_failed kind =
     \<lparr>status = 500, success = False, error = Some (asc ''Extraction failed''),
      message = failure_message kind, data = None\<rparr>"

definition server_error :: "pystr \<Rightarrow> response" where
  "server_error e =
     \<lparr>status = 500, success = False, error = Some (asc ''Server error''), message = e,
      data = None\<rparr>"

definition extracted_ok :: "doctype \<Rightarrow> record_dict \<Rightarrow> response" where
  "extracted_ok kind d =
     \<lparr>status = 200, success = True, error = None, message = success_message kind,
      data = Some d\<rparr>"

text \<open>\<open>os.path.join\<close> (POSIX) and the upload folder of line 28.\<close>

definition path_join :: "pystr \<Rightarrow> pystr \<Rightarrow> pystr" where
  "path_join a b =
     (if startswith b (asc ''/'') then b
      else if a = [] \<or> endswith a (asc ''/'') then a @ b
      else a @ asc ''/'' @ b)"

definition upload_folder :: pystr where
  "upload_folder = asc ''uploads''"

definition upload_path :: "env \<Rightarrow> upload \<Rightarrow> pystr" where
  "upload_path E file = path_join upload_folder (strftime_now E @ asc ''_'' @ filename file)"

definition is_pdf_path :: "runtime \<Rightarrow> pystr \<Rightarrow> bool" where
  "is_pdf_path R filepath = endswith (lower R filepath) (asc ''.pdf'')"

text \<open>Lines 454-467 (and 510-523, 566-579): from the saved upload to the normalizer's result.\<close>

definition materialize_and_extract :: "doctype \<Rightarrow> runtime \<Rightarrow> env \<Rightarrow> upload \<Rightarrow> (record_dict option) io" where
  "materialize_and_extract kind R E file =
     (let filepath = upload_path E file in
      bind_io (file_save E filepath (content file)) (\<lambda>_.
        if is_pdf_path R filepath then
          bind_io (rasterize E filepath 300) (\<lambda>images.
          let temp_img = filepath @ asc ''_page1.jpg'' in
          bind_io (first_page images) (\<lambda>page.
          bind_io (image_save_jpeg E page temp_img) (\<lambda>_.
          bind_io (extract_with_gemini kind R E temp_img) (\<lambda>data.
          bind_io (os_remove R E temp_img) (\<lambda>_.
          bind_io (os_remove R E filepath) (\<lambda>_ w. (Inr data, w)))))))
        else
          bind_io (extract_with_gemini kind R E filepath) (\<lambda>data.
          bind_io (os_remove R E filepath) (\<lambda>_ w. (Inr data, w)))))"

text \<open>
  A handler: the validation of lines 438-452, the body above, the two replies of lines
  469-480, and the \<open>except Exception\<close> of lines 482-489 around all of it.
\<close>

definition process :: "doctype \<Rightarrow> runtime \<Rightarrow> env \<Rightarrow> request \<Rightarrow> world \<Rightarrow> response \<times> world" where
  "process kind R E req w =
     (case files req of
        Inl e \<Rightarrow> (server_error e, w)
      | Inr parts \<Rightarrow>
          (case parts (asc ''file'') of
             None \<Rightarrow> (bad_request (asc ''No file provided'') (upload_message kind), w)
           | Some file \<Rightarrow>
               if filename file = []
               then (bad_request (asc ''Empty filename'') (asc ''No file selected''), w)
               else
                 (case materialize_and_extract kind R E file w of
                    (Inl e, w') \<Rightarrow> (server_error e, w')
                  | (Inr None, w') \<Rightarrow> (extraction_failed kind, w')
                  | (Inr (Some d), w') \<Rightarrow>
                      (if d = [] then extraction_failed kind else extracted_ok kind d, w'))))"

definition process_cheque :: "runtime \<Rightarrow> env \<Rightarrow> request \<Rightarrow> world \<Rightarrow> response \<times> world" where
  "process_cheque = process Cheque"

definition process_gst :: "runtime \<Rightarrow> env \<Rightarrow> request \<Rightarrow> world \<Rightarrow> response \<times> world" where
  "process_gst = process Gst"

definition process_passbook :: "runtime \<Rightarrow> env \<Rightarrow> request \<Rightarrow> world \<Rightarrow> response \<times> world" where
  "process_passbook = process Passbook"

section \<open>Statements of the specification\<close>

subsection \<open>Indian digit grouping\<close>

text \<open>
  The grouping as the specification words it: the last three digits form one group, the
  digits before them are grouped in pairs from the right, and the groups are separated
  by commas. \<open>chunk2\<close> cuts a list into pairs from the left, so \<open>pairs_from_right\<close>
  cuts the reversed list and reverses back. \<open>digits_value\<close> is the integer a string of
  decimal digits denotes.
\<close>

fun chunk2 :: "'a list \<Rightarrow> 'a list list" where
  "chunk2 [] = []"
| "chunk2 [a] = [[a]]"
| "chunk2 (a # b # xs) = [a, b] # chunk2 xs"

definition pairs_from_right :: "pystr \<Rightarrow> pystr list" where
  "pairs_from_right ds = rev (map rev (chunk2 (rev ds)))"

definition indian_grouping :: "pystr \<Rightarrow> pystr" where
  "indian_grouping ds =
     (if length ds \<le> 3 then ds
      else join [44] (pairs_from_right (take (length ds - 3) ds) @ [drop (length ds - 3) ds]))"

definition digits_value :: "runtime \<Rightarrow> pystr \<Rightarrow> nat" where
  "digits_value R ds = (\<Sum>i<length ds. the (decimal R (ds ! i)) * 10 ^ (length ds - Suc i))"

subsection \<open>The cheque number in a MICR line\<close>

text \<open>
  \<open>bounded_at R s i ds\<close>: at position \<open>i\<close> of \<open>s\<close> stands a MICR glyph, then white
  space (possibly none), the non-empty digit sequence \<open>ds\<close>, white space (possibly
  none) and a MICR glyph. \<open>six_digit_token_at R s i\<close>: at position \<open>i\<close> stand six
  digits with a word boundary before and after them.
\<close>

definition bounded_at :: "runtime \<Rightarrow> pystr \<Rightarrow> nat \<Rightarrow> pystr \<Rightarrow> bool" where
  "bounded_at R s i ds =
     (\<exists>g1 ws1 ws2 g2 rest.
        drop i s = g1 # ws1 @ ds @ ws2 @ g2 # rest
        \<and> is_micr_glyph g1 \<and> is_micr_glyph g2
        \<and> list_all (isspace R) ws1 \<and> list_all (isspace R) ws2
        \<and> ds \<noteq> [] \<and> list_all (is_digit R) ds)"

definition six_digit_token_at :: "runtime \<Rightarrow> pystr \<Rightarrow> nat \<Rightarrow> bool" where
  "six_digit_token_at R s i =
     (i + 6 \<le> length s \<and> list_all (is_digit R) (take 6 (drop i s))
      \<and> word_boundary R s i \<and> word_boundary R s (i + 6))"

text \<open>The MICR line of the specification's example.\<close>

definition micr_example :: pystr where
  "micr_example =
     [9288] @ asc ''343242'' @ [9288] @ asc '' 520002206'' @ [9286] @ asc '' 000860''
       @ [9288] @ asc '' 24''"

section \<open>Replies in a fenced block\<close>

text \<open>
  \<open>contains s sub\<close> is Python's \<open>sub in s\<close>. \<open>fenced_json p\<close> is the payload \<open>p\<close> in a
  fenced block whose opening marker carries the language tag \<open>json\<close>, \<open>fenced_plain p\<close>
  the same block with the tag omitted; the markers stand on lines of their own.
\<close>

fun contains :: "pystr \<Rightarrow> pystr \<Rightarrow> bool" where
  "contains [] sub = (sub = [])"
| "contains (c # cs) sub = (startswith (c # cs) sub \<or> contains cs sub)"

definition fenced_json :: "pystr \<Rightarrow> pystr" where
  "fenced_json p = fence_json @ [10] @ p @ [10] @ fence"

definition fenced_plain :: "pystr \<Rightarrow> pystr" where
  "fenced_plain p = fence @ [10] @ p @ [10] @ fence"


section \<open>The fields of a record\<close>

text \<open>
  \<open>upstream kvs k\<close> is \<open>extracted.get(k, '')\<close> on the dict \<open>kvs\<close>. \<open>record_keys\<close>
  lists the keys of the dict display of each normalizer in the order written (lines
  148-165, 251-271 and 369-393). The fields the normalizer computes itself are
  \<open>computed_fields\<close>, of which \<open>derived_fields\<close> are the three computed from other
  fields; the \<open>raw_fields\<close> are the others, read from the reply. \<open>is_str\<close> holds of
  a field that is present and a string.
\<close>

definition upstream :: "(pystr \<times> json) list \<Rightarrow> string \<Rightarrow> json" where
  "upstream kvs k = (case map_of kvs (asc k) of None \<Rightarrow> JStr [] | Some v \<Rightarrow> v)"

fun record_keys :: "doctype \<Rightarrow> string list" where
  "record_keys Cheque =
     [''document_type'', ''bank_name'', ''account_holder_name'', ''payee_name'', ''amount_words'',
      ''amount_numbers'', ''amount_formatted'', ''date'', ''account_number'', ''ifsc_code'',
      ''micr_code'', ''cheque_number'', ''prefix_number'', ''branch_name'', ''branch_code'',
      ''extracted_at'']"
| "record_keys Gst =
     [''document_type'', ''registration_number'', ''legal_name'', ''trade_name'', ''constitution'',
      ''floor_number'', ''building_number'', ''premises_name'', ''road_street'', ''locality'',
      ''full_address'', ''city'', ''district'', ''state'', ''pin_code'', ''validity_from'',
      ''validity_to'', ''registration_type'', ''approving_officer'', ''designation'', ''office'',
      ''issue_date'', ''extracted_at'']"
| "record_keys Passbook =
     [''document_type'', ''cif_number'', ''account_number'', ''customer_name'',
      ''father_husband_name'', ''address'', ''phone'', ''email'', ''date_of_birth'',
      ''minor_status'', ''nominee_reg_number'', ''branch_name'', ''branch_code'', ''ifsc_code'',
      ''micr_code'', ''account_type'', ''date_of_issue'', ''date_of_activation'',
      ''extracted_at'']"

definition computed_fields :: "string list" where
  "computed_fields =
     [''document_type'', ''amount_formatted'', ''cheque_number'', ''full_address'', ''extracted_at'']"


definition raw_fields :: "doctype \<Rightarrow> string list" where
  "raw_fields kind = filter (\<lambda>k. k \<notin> set computed_fields) (record_keys kind)"

definition is_str :: "json option \<Rightarrow> bool" where
  "is_str v = (case v of Some (JStr s) \<Rightarrow> True | _ \<Rightarrow> False)"

section \<open>The address line of a GST certificate\<close>

text \<open>
  Lines 355-367 on a dict \<open>kvs\<close>: \<open>labelled_part\<close> is what one of the first two \<open>if\<close>
  statements appends (the label and \<open>str\<close> of the value, when the value is true),
  \<open>plain_part\<close> and \<open>raw_part\<close> what one of the last three appends (the value when it
  is true, as a string and as it is), and \<open>address_line\<close> the joined result.
  \<open>str_or_falsy kvs k\<close>: the value under \<open>k\<close> is absent, false (\<open>None\<close>, \<open>''\<close>,
  \<open>0\<close>, an empty container) or a string.
\<close>

definition labelled_part :: "runtime \<Rightarrow> (pystr \<times> json) list \<Rightarrow> string \<Rightarrow> string \<Rightarrow> pystr list" where
  "labelled_part R kvs k label =
     (case map_of kvs (asc k) of
        Some v \<Rightarrow> if truthy v then [asc label @ py_str R v] else []
      | None \<Rightarrow> [])"

definition plain_part :: "(pystr \<times> json) list \<Rightarrow> string \<Rightarrow> pystr list" where
  "plain_part kvs k =
     (case map_of kvs (asc k) of Some (JStr s) \<Rightarrow> if s \<noteq> [] then [s] else [] | _ \<Rightarrow> [])"

definition raw_part :: "(pystr \<times> json) list \<Rightarrow> string \<Rightarrow> json list" where
  "raw_part kvs k =
     (case map_of kvs (asc k) of Some v \<Rightarrow> if truthy v then [v] else [] | None \<Rightarrow> [])"

definition address_line :: "runtime \<Rightarrow> (pystr \<times> json) list \<Rightarrow> pystr" where
  "address_line R kvs =
     join (asc '', '')
       (labelled_part R kvs ''floor_number'' ''Floor: ''
        @ labelled_part R kvs ''building_number'' ''Building: ''
        @ plain_part kvs ''premises_name''
        @ plain_part kvs ''road_street''
        @ plain_part kvs ''locality'')"

definition str_or_falsy :: "(pystr \<times> json) list \<Rightarrow> string \<Rightarrow> bool" where
  "str_or_falsy kvs k =
     (case map_of kvs (asc k) of
        Some v \<Rightarrow> \<not> truthy v \<or> (case v of JStr s \<Rightarrow> True | _ \<Rightarrow> False)
      | None \<Rightarrow> True)"






section \<open>Example inputs\<close>

text \<open>
  \<open>decode_only text v\<close> is a decoder that knows one document: it returns \<open>v\<close> on
  \<open>text\<close> and raises on every other string. \<open>quiet_env\<close> is an environment in which no
  collaborator fails and the service answers \<open>{}\<close>. \<open>quoted_fence_payload\<close> is the JSON
  document with one member, named \<open>a\<close>, whose value is a string of three backquotes, and
  \<open>quoted_fence_value\<close> the dict it denotes.
\<close>

definition decode_only :: "pystr \<Rightarrow> json \<Rightarrow> pystr \<Rightarrow> json option" where
  "decode_only text v x = (if x = text then Some v else None)"

definition quiet_env :: env where
  "quiet_env =
     \<lparr> strftime_now = asc ''20250101_120000'',
       isoformat_now = asc ''2025-01-01T12:00:00.000000'',
       save_error = (\<lambda>path. None),
       convert_from_path = (\<lambda>bytes dpi. Inr [[255]]),
       jpeg_save_error = (\<lambda>img path. None),
       jpeg_encode = (\<lambda>img. img),
       image_open = (\<lambda>bytes. Inr bytes),
       generate_content = (\<lambda>kind img. Some (asc ''{}'')),
       json_loads = decode_only (asc ''{}'') (JObj []),
       remove_error = (\<lambda>path. None) \<rparr>"

definition quoted_fence_payload :: pystr where
  "quoted_fence_payload = [123, 34, 97, 34, 58, 32, 34] @ fence @ [34, 125]"

definition quoted_fence_value :: json where
  "quoted_fence_value = JObj [([97], JStr fence)]"


text \<open>
  \<open>null_bank_reply\<close> is a reply whose only member is \<open>bank_name\<close> with the value
  \<open>null\<close>, and \<open>null_bank_env\<close> decodes it. The other three are decoded replies: one
  that supplies \<open>amount_formatted\<close> itself, one that supplies \<open>full_address\<close> itself,
  one with the floor a number, and one with the floor a string.
\<close>

definition null_bank_reply :: pystr where
  "null_bank_reply = asc ''{'' @ [34] @ asc ''bank_name'' @ [34] @ asc '': null}''"

definition null_bank_env :: env where
  "null_bank_env = quiet_env\<lparr>json_loads := decode_only null_bank_reply (JObj [(asc ''bank_name'', JNull)])\<rparr>"





section \<open>Auxiliary functions of the proofs\<close>

text \<open>
  \<open>emit m zs\<close> writes \<open>zs\<close> with a comma after every second character, counting from
  \<open>m\<close> characters already written: the loop of the formatter read backwards.
  \<open>match_text\<close> is the text \<open>findall\<close> lists for a match.
\<close>

fun emit :: "nat \<Rightarrow> pystr \<Rightarrow> pystr" where
  "emit m [] = []"
| "emit m (z # zs) = z # (if zs \<noteq> [] \<and> even (Suc m) then [44] else []) @ emit (Suc m) zs"

definition match_text :: "pystr \<Rightarrow> nat \<Rightarrow> nat \<times> pystr list \<Rightarrow> pystr" where
  "match_text s p m = (case snd m of [] \<Rightarrow> take (fst m - p) (drop p s) | g # _ \<Rightarrow> g)"

section \<open>Facts about the character data\<close>

lemma conformant_ascii:
  assumes "conformant R" and "c < 128"
  shows "decimal R c = ascii_decimal c" and "isspace R c = ascii_space c"
    and "isalnum R c = ascii_alnum c" and "lower_char R c = ascii_lower c"
  using assms by (simp_all add: conformant_def)

lemma conformant_is_digit:
  "conformant R \<Longrightarrow> c < 128 \<Longrightarrow> is_digit R c = (48 \<le> c \<and> c \<le> 57)"
  by (simp add: is_digit_def conformant_ascii ascii_decimal_def)

lemma conformant_ascii_runtime: "conformant ascii_runtime"
  by (auto simp add: conformant_def ascii_runtime_def is_digit_def is_micr_glyph_def
      ascii_decimal_def ascii_space_def split: if_splits)

lemma conformant_disjoint:
  assumes "conformant R"
  shows "is_micr_glyph c \<Longrightarrow> \<not> isspace R c" and "is_micr_glyph c \<Longrightarrow> \<not> is_digit R c"
    and "is_digit R c \<Longrightarrow> \<not> isspace R c"
proof -
  show "is_micr_glyph c \<Longrightarrow> \<not> isspace R c"
    using assms unfolding conformant_def by blast
  show "is_micr_glyph c \<Longrightarrow> \<not> is_digit R c"
    using assms unfolding conformant_def is_digit_def by auto
  show "is_digit R c \<Longrightarrow> \<not> isspace R c"
    using assms unfolding conformant_def by blast
qed

section \<open>The currency formatter\<close>

lemma emit_parity: "emit (Suc (Suc m)) zs = emit m zs"
  by (induction zs arbitrary: m) auto

lemma chunk2_Nil_iff: "chunk2 xs = [] \<longleftrightarrow> xs = []"
  by (cases xs rule: chunk2.cases) auto

lemma join_Cons: "join sep (x # xs) = x @ (if xs = [] then [] else sep @ join sep xs)"
  by (cases xs) auto

lemma emit_chunk2: "emit 0 zs = join [44] (chunk2 zs)"
proof (induction zs rule: chunk2.induct)
  case (3 a b xs)
  then show ?case by (simp add: emit_parity join_Cons chunk2_Nil_iff del: join.simps(3))
qed auto

lemma group_loop_rev:
  "i \<le> length rem \<Longrightarrow>
   rev (group_loop rem i acc) = rev acc @ emit (length rem - i) (rev (take i rem))"
proof (induction i arbitrary: acc)
  case 0
  then show ?case by simp
next
  case (Suc i)
  then have il: "i < length rem" by simp
  have tk: "rev (take (Suc i) rem) = rem ! i # rev (take i rem)"
    using il by (simp add: take_Suc_conv_app_nth)
  have e: "length rem - i = Suc (length rem - Suc i)" using il by simp
  show ?case
    using Suc.IH [of "if 0 < i \<and> (length rem - i) mod 2 = 0 then 44 # rem ! i # acc else rem ! i # acc"] il
    by (auto simp add: tk e Let_def even_iff_mod_2_eq_zero)
qed

lemma join_snoc: "join sep (as @ [b]) = (if as = [] then b else join sep as @ sep @ b)"
  by (induction sep as rule: join.induct) auto

lemma rev_join_comma: "rev (join [c] xs) = join [c] (rev (map rev xs))"
  by (induction xs) (simp_all add: join_Cons join_snoc del: join.simps(3))

lemma pairs_from_right_Nil_iff: "pairs_from_right xs = [] \<longleftrightarrow> xs = []"
  by (simp add: pairs_from_right_def chunk2_Nil_iff)

lemma group_loop_spec:
  "group_loop rem (length rem) [] = join [44] (pairs_from_right rem)"
proof -
  have "rev (group_loop rem (length rem) []) = join [44] (chunk2 (rev rem))"
    using group_loop_rev [of "length rem" rem "[]"] by (simp add: emit_chunk2)
  then have "group_loop rem (length rem) [] = rev (join [44] (chunk2 (rev rem)))"
    by (metis rev_rev_ident)
  then show ?thesis by (simp add: rev_join_comma pairs_from_right_def)
qed

lemma digits_value_Cons:
  "digits_value R (c # cs) = the (decimal R c) * 10 ^ length cs + digits_value R cs"
  unfolding digits_value_def by (simp add: sum.lessThan_Suc_shift del: sum.lessThan_Suc)

lemma int_from_value:
  "list_all (is_digit R) ds \<Longrightarrow>
   int_from R a ds = Some (a * 10 ^ length ds + digits_value R ds)"
proof (induction ds arbitrary: a)
  case Nil
  then show ?case by (simp add: digits_value_def)
next
  case (Cons c cs)
  then obtain d where d: "decimal R c = Some d" by (auto simp add: is_digit_def)
  show ?case using Cons d by (simp add: digits_value_Cons algebra_simps)
qed

lemma format_indian_currency_str:
  "format_indian_currency R (JStr s) =
     (let ds = filter (is_digit R) s in
      if ds = [] then Some []
      else if int_max_str_digits < length ds then None
      else Some ([8377, 32] @ indian_grouping (str_nat (digits_value R ds)) @ asc ''/-''))"
proof (cases "filter (is_digit R) s = []")
  case True
  then show ?thesis by (simp add: format_indian_currency_def py_str_def Let_def)
next
  case False
  have all: "list_all (is_digit R) (filter (is_digit R) s)" by (simp add: list_all_iff)
  have "s \<noteq> []" using False by auto
  then show ?thesis
    using False int_from_value [OF all, of 0]
    by (simp add: format_indian_currency_def py_str_def Let_def py_int_def indian_grouping_def
        group_loop_spec join_snoc pairs_from_right_Nil_iff)
qed

lemma format_indian_currency_within:
  assumes "length (filter (is_digit R) s) \<le> int_max_str_digits"
  shows "format_indian_currency R (JStr s) =
     Some (let ds = filter (is_digit R) s in
           if ds = [] then []
           else [8377, 32] @ indian_grouping (str_nat (digits_value R ds)) @ asc ''/-'')"
  using assms by (simp add: format_indian_currency_str Let_def)

lemma format_indian_currency_beyond:
  assumes "int_max_str_digits < length (filter (is_digit R) s)"
  shows "format_indian_currency R (JStr s) = None"
proof -
  have "filter (is_digit R) s \<noteq> []" using assms by auto
  then show ?thesis using assms by (simp add: format_indian_currency_str Let_def)
qed


lemma digits_value_Nil: "digits_value R [] = 0"
  by (simp add: digits_value_def)

lemma digits_value_snoc:
  "digits_value R (xs @ [c]) = 10 * digits_value R xs + the (decimal R c)"
  by (induction xs) (simp_all add: digits_value_Cons digits_value_Nil algebra_simps)

lemma str_nat_decimal:
  assumes "conformant R"
  shows "list_all (is_digit R) (str_nat n) \<and> digits_value R (str_nat n) = n
         \<and> (str_nat n = [48] \<or> hd (str_nat n) \<noteq> 48)"
proof (induction n rule: str_nat.induct)
  case (1 n)
  show ?case
  proof (cases "n < 10")
    case True
    then show ?thesis
      using assms
      by (auto simp add: str_nat.simps [of n] conformant_is_digit digits_value_Cons
          digits_value_Nil conformant_ascii ascii_decimal_def)
  next
    case False
    have ne: "str_nat (n div 10) \<noteq> []"
      by (subst str_nat.simps) auto
    have z: "str_nat (n div 10) \<noteq> [48]"
    proof
      assume "str_nat (n div 10) = [48]"
      then have "digits_value R (str_nat (n div 10)) = 0"
        using assms by (simp add: digits_value_Cons digits_value_Nil conformant_ascii ascii_decimal_def)
      then show False using 1 False by simp
    qed
    have m: "n mod 10 \<le> 9" by presburger
    show ?thesis
      using 1 False assms ne z m
      by (simp add: str_nat.simps [of n] conformant_is_digit digits_value_snoc
          conformant_ascii ascii_decimal_def)
  qed
qed

lemma format_examples:
  assumes "conformant R"
  shows "format_indian_currency R (JStr (asc ''5000000'')) = Some ([8377, 32] @ asc ''50,00,000/-'')"
    and "format_indian_currency R (JStr (asc ''100'')) = Some ([8377, 32] @ asc ''100/-'')"
    and "format_indian_currency R (JStr []) = Some []"
    and "format_indian_currency R (JStr (asc ''abc'')) = Some []"
  using assms
  by (simp_all add: format_indian_currency_str asc_def conformant_is_digit digits_value_Cons
      digits_value_Nil conformant_ascii ascii_decimal_def str_nat.simps indian_grouping_def
      pairs_from_right_def int_max_str_digits_def)

section \<open>The regular expression matcher\<close>

lemma first_success_None: "(\<And>k. k \<in> set ks \<Longrightarrow> f k = None) \<Longrightarrow> first_success f ks = None"
  by (induction ks) auto

lemma first_success_SomeD: "first_success f ks = Some r \<Longrightarrow> \<exists>k\<in>set ks. f k = Some r"
  by (induction ks) (auto split: option.splits)

lemma first_success_greedy:
  assumes "lo \<le> mx" and "\<And>k. lo \<le> k \<Longrightarrow> k < mx \<Longrightarrow> f k = None"
  shows "first_success f (rev [lo..<Suc mx]) = f mx"
proof -
  have "first_success f (rev [lo..<mx]) = None"
    using assms(2) by (intro first_success_None) auto
  then show ?thesis using assms(1) by (simp split: option.splits)
qed

lemma drop_add_drop: "drop (p + k) s = drop k (drop p s)"
  by (simp add: add.commute)

lemma run_length_exact:
  assumes "drop q s = xs @ ys" and "list_all C xs" and "ys = [] \<or> \<not> C (hd ys)"
  shows "run_length C s q = length xs"
proof -
  have "takeWhile C (xs @ ys) = xs @ takeWhile C ys"
    using assms(2) by (simp add: takeWhile_append2 list_all_iff)
  moreover have "takeWhile C ys = []" using assms(3) by (cases ys) auto
  ultimately show ?thesis using assms(1) by (simp add: run_length_def)
qed

lemma run_length_zero:
  assumes "drop q s = c # r" and "\<not> C c"
  shows "run_length C s q = 0"
  using assms by (simp add: run_length_def)

lemma run_length_inside:
  assumes "drop q s = xs @ ys" and "k < length xs" and "\<not> C (xs ! k)"
  shows "run_length C s (q + k) = 0"
proof -
  have "drop (q + k) s = drop k xs @ ys" using assms(1,2) by (simp add: drop_add_drop del: drop_drop)
  moreover have "drop k xs = xs ! k # drop (Suc k) xs" using assms(2) by (simp add: Cons_nth_drop_Suc)
  ultimately show ?thesis using assms(3) by (simp add: run_length_def)
qed

lemma match_One:
  "1 \<le> run_length C s p \<Longrightarrow>
     match_here R (Plain (One C) # its) s p = match_here R its s (p + 1)"
  "run_length C s p = 0 \<Longrightarrow> match_here R (Plain (One C) # its) s p = None"
  by (simp_all split: option.splits)

lemma match_Star_greedy:
  assumes "run_length C s p = n" and "\<And>k. k < n \<Longrightarrow> match_here R its s (p + k) = None"
  shows "match_here R (Plain (Star C) # its) s p = match_here R its s (p + n)"
  using first_success_greedy [of 0 n "\<lambda>k. match_here R its s (p + k)"] assms by simp

lemma match_Capture_Plus_greedy:
  assumes "run_length C s p = n" and "1 \<le> n"
    and "\<And>k. k < n \<Longrightarrow> match_here R its s (p + k) = None"
  shows "match_here R (Capture (Plus C) # its) s p
           = map_option (\<lambda>(e, gs). (e, take n (drop p s) # gs)) (match_here R its s (p + n))"
  using first_success_greedy [OF assms(2), of
      "\<lambda>k. map_option (\<lambda>(e, gs). (e, take k (drop p s) # gs)) (match_here R its s (p + k))"]
    assms(1,3)
  by simp

lemma match_Capture_Plus_none:
  "run_length C s p = 0 \<Longrightarrow> match_here R (Capture (Plus C) # its) s p = None"
  by simp

lemma micr_match_complete:
  assumes R: "conformant R"
    and d: "drop p s = g1 # ws1 @ ds @ ws2 @ g2 # rest"
    and g: "is_micr_glyph g1" "is_micr_glyph g2"
    and w: "list_all (isspace R) ws1" "list_all (isspace R) ws2"
    and ds: "ds \<noteq> []" "list_all (is_digit R) ds"
  shows "match_here R (micr_pattern R) s p
           = Some (p + 1 + length ws1 + length ds + length ws2 + 1, [ds])"
proof -
  define p1 where "p1 = p + 1"
  define p2 where "p2 = p1 + length ws1"
  define p3 where "p3 = p2 + length ds"
  define p4 where "p4 = p3 + length ws2"
  define G where "G = Plain (One is_micr_glyph)"
  define S where "S = Plain (Star (isspace R))"
  define D where "D = Capture (Plus (is_digit R))"
  have d1: "drop p1 s = ws1 @ ds @ ws2 @ g2 # rest"
    unfolding p1_def using d drop_add_drop [of p 1 s] by simp
  have d2: "drop p2 s = ds @ ws2 @ g2 # rest"
    unfolding p2_def using d1 by (simp add: drop_add_drop del: drop_drop)
  have d3: "drop p3 s = ws2 @ g2 # rest"
    unfolding p3_def using d2 by (simp add: drop_add_drop del: drop_drop)
  have d4: "drop p4 s = g2 # rest"
    unfolding p4_def using d3 by (simp add: drop_add_drop del: drop_drop)
  have wsD: "\<And>c. c \<in> set ws1 \<union> set ws2 \<Longrightarrow> isspace R c"
    using w by (auto simp add: list_all_iff)
  have dsD: "\<And>c. c \<in> set ds \<Longrightarrow> is_digit R c"
    using ds by (auto simp add: list_all_iff)
  have m5: "match_here R [G] s p4 = Some (p4 + 1, [])"
  proof -
    have "1 \<le> run_length is_micr_glyph s p4"
      using d4 g(2) by (simp add: run_length_def)
    then show ?thesis unfolding G_def by (simp only: match_One match_here.simps(1))
  qed
  have m4: "match_here R [S, G] s p3 = Some (p4 + 1, [])"
  proof -
    have run: "run_length (isspace R) s p3 = length ws2"
      using d3 w(2) g(2) conformant_disjoint(1) [OF R]
      by (intro run_length_exact [of _ _ _ "g2 # rest"]) auto
    have fail: "match_here R [G] s (p3 + k) = None" if k: "k < length ws2" for k
    proof -
      have "isspace R (ws2 ! k)" using k wsD by simp
      then have "\<not> is_micr_glyph (ws2 ! k)" using conformant_disjoint(1) [OF R] by blast
      then have "run_length is_micr_glyph s (p3 + k) = 0"
        using d3 k by (intro run_length_inside [of _ _ ws2 "g2 # rest"]) auto
      then show ?thesis unfolding G_def by (rule match_One(2))
    qed
    show ?thesis
      unfolding S_def using match_Star_greedy [OF run fail] m5 by (simp add: p4_def)
  qed
  have m3: "match_here R [D, S, G] s p2 = Some (p4 + 1, [ds])"
  proof -
    have nd: "\<not> is_digit R (hd (ws2 @ g2 # rest))"
      using wsD g(2) conformant_disjoint(2,3) [OF R] by (cases ws2) auto
    have run: "run_length (is_digit R) s p2 = length ds"
      using d2 ds(2) nd by (intro run_length_exact [of _ _ _ "ws2 @ g2 # rest"]) auto
    have fail: "match_here R [S, G] s (p2 + k) = None" if k: "k < length ds" for k
    proof -
      have dk: "is_digit R (ds ! k)" using k dsD by simp
      have r1: "run_length (isspace R) s (p2 + k) = 0"
        using d2 k dk conformant_disjoint(3) [OF R]
        by (intro run_length_inside [of _ _ ds "ws2 @ g2 # rest"]) auto
      have "run_length is_micr_glyph s (p2 + k) = 0"
        using d2 k dk conformant_disjoint(2) [OF R]
        by (intro run_length_inside [of _ _ ds "ws2 @ g2 # rest"]) auto
      then have "match_here R [G] s (p2 + k + 0) = None"
        unfolding G_def by (simp only: match_One(2) add_0_right)
      then show ?thesis
        unfolding S_def using match_Star_greedy [OF r1, of R "[G]"] by simp
    qed
    have tk: "take (length ds) (drop p2 s) = ds" using d2 by simp
    have le: "1 \<le> length ds" using ds(1) by (cases ds) auto
    show ?thesis
      unfolding D_def using match_Capture_Plus_greedy [OF run le fail] m4 tk
      by (simp add: p3_def)
  qed
  have m2: "match_here R [S, D, S, G] s p1 = Some (p4 + 1, [ds])"
  proof -
    have ns: "\<not> isspace R (hd (ds @ ws2 @ g2 # rest))"
      using ds(1) dsD conformant_disjoint(3) [OF R] by (cases ds) auto
    have run: "run_length (isspace R) s p1 = length ws1"
      using d1 w(1) ns by (intro run_length_exact [of _ _ _ "ds @ ws2 @ g2 # rest"]) auto
    have fail: "match_here R [D, S, G] s (p1 + k) = None" if k: "k < length ws1" for k
    proof -
      have "isspace R (ws1 ! k)" using k wsD by simp
      then have "\<not> is_digit R (ws1 ! k)" using conformant_disjoint(3) [OF R] by blast
      then have "run_length (is_digit R) s (p1 + k) = 0"
        using d1 k by (intro run_length_inside [of _ _ ws1 "ds @ ws2 @ g2 # rest"]) auto
      then show ?thesis unfolding D_def by (rule match_Capture_Plus_none)
    qed
    show ?thesis
      unfolding S_def using match_Star_greedy [OF run fail] m3 by (simp add: p2_def S_def)
  qed
  have "1 \<le> run_length is_micr_glyph s p"
    using d g(1) by (simp add: run_length_def)
  then have "match_here R (micr_pattern R) s p = match_here R [S, D, S, G] s (p + 1)"
    unfolding micr_pattern_def G_def S_def D_def by (rule match_One(1))
  then show ?thesis using m2 by (simp add: p4_def p3_def p2_def p1_def)
qed


lemma match_Plain_SomeD:
  assumes "match_here R (Plain a # its) s p = Some r"
  shows "\<exists>k. k \<in> set (reps a (run_length (atom_class a) s p)) \<and> match_here R its s (p + k) = Some r"
  using first_success_SomeD [OF assms [unfolded match_here.simps(3)]] by blast

lemma match_Capture_SomeD:
  assumes "match_here R (Capture a # its) s p = Some (e, gs)"
  shows "\<exists>k gs'. k \<in> set (reps a (run_length (atom_class a) s p))
           \<and> match_here R its s (p + k) = Some (e, gs') \<and> gs = take k (drop p s) # gs'"
proof -
  obtain k where k: "k \<in> set (reps a (run_length (atom_class a) s p))"
    and m: "map_option (\<lambda>(e, gs). (e, take k (drop p s) # gs)) (match_here R its s (p + k)) = Some (e, gs)"
    using first_success_SomeD [OF assms [unfolded match_here.simps(4)]] by blast
  from m obtain x where x: "match_here R its s (p + k) = Some x"
    and "(e, gs) = (\<lambda>(e, gs). (e, take k (drop p s) # gs)) x"
    by (cases "match_here R its s (p + k)") simp_all
  then have "match_here R its s (p + k) = Some (e, snd x) \<and> gs = take k (drop p s) # snd x"
    by (cases x) simp
  then show ?thesis using k by blast
qed

lemma reps_bounds:
  assumes "k \<in> set (reps a run)"
  shows "k \<le> run"
    and "a = One C \<Longrightarrow> k = 1" and "a = Plus C \<Longrightarrow> 1 \<le> k" and "a = Times n C \<Longrightarrow> k = n"
proof -
  show "k \<le> run" using assms by (cases a) (auto split: if_splits)
  show "a = One C \<Longrightarrow> k = 1" using assms by (auto split: if_splits)
  show "a = Plus C \<Longrightarrow> 1 \<le> k" using assms by auto
  show "a = Times n C \<Longrightarrow> k = n" using assms by (auto split: if_splits)
qed

lemma take_takeWhile:
  "k \<le> length (takeWhile P xs) \<Longrightarrow> take k xs = take k (takeWhile P xs)"
  by (induction xs arbitrary: k) (auto simp add: take_Cons split: nat.splits if_splits)

lemma run_prefix:
  assumes "k \<le> run_length C s q"
  shows "drop q s = take k (drop q s) @ drop (q + k) s"
    and "list_all C (take k (drop q s))" and "length (take k (drop q s)) = k"
proof -
  show "drop q s = take k (drop q s) @ drop (q + k) s"
    unfolding drop_add_drop by (rule append_take_drop_id [symmetric])
  have le: "k \<le> length (takeWhile C (drop q s))" using assms by (simp add: run_length_def)
  have "\<forall>c\<in>set (take k (takeWhile C (drop q s))). C c"
    by (auto dest: in_set_takeD set_takeWhileD)
  then show "list_all C (take k (drop q s))"
    using take_takeWhile [OF le] by (simp add: list_all_iff)
  have "length (takeWhile C (drop q s)) \<le> length (drop q s)"
    by (rule length_takeWhile_le)
  then show "length (take k (drop q s)) = k" using le by simp
qed

lemma micr_match_sound:
  assumes "match_here R (micr_pattern R) s p = Some (e, gs)"
  shows "\<exists>ds. gs = [ds] \<and> bounded_at R s p ds"
proof -
  have m0: "match_here R
      (Plain (One is_micr_glyph) # [Plain (Star (isspace R)), Capture (Plus (is_digit R)),
        Plain (Star (isspace R)), Plain (One is_micr_glyph)]) s p = Some (e, gs)"
    using assms by (simp only: micr_pattern_def)
  obtain k1 where k1: "k1 \<in> set (reps (One is_micr_glyph) (run_length (atom_class (One is_micr_glyph)) s p))"
    and m1: "match_here R (Plain (Star (isspace R)) # [Capture (Plus (is_digit R)),
        Plain (Star (isspace R)), Plain (One is_micr_glyph)]) s (p + k1) = Some (e, gs)"
    using match_Plain_SomeD [OF m0] by blast
  obtain k2 where k2: "k2 \<in> set (reps (Star (isspace R)) (run_length (atom_class (Star (isspace R))) s (p + k1)))"
    and m2: "match_here R (Capture (Plus (is_digit R)) # [Plain (Star (isspace R)),
        Plain (One is_micr_glyph)]) s (p + k1 + k2) = Some (e, gs)"
    using match_Plain_SomeD [OF m1] by blast
  obtain k3 gs' where k3: "k3 \<in> set (reps (Plus (is_digit R)) (run_length (atom_class (Plus (is_digit R))) s (p + k1 + k2)))"
    and m3: "match_here R (Plain (Star (isspace R)) # [Plain (One is_micr_glyph)]) s (p + k1 + k2 + k3) = Some (e, gs')"
    and gs: "gs = take k3 (drop (p + k1 + k2) s) # gs'"
    using match_Capture_SomeD [OF m2] by blast
  obtain k4 where k4: "k4 \<in> set (reps (Star (isspace R)) (run_length (atom_class (Star (isspace R))) s (p + k1 + k2 + k3)))"
    and m4: "match_here R (Plain (One is_micr_glyph) # []) s (p + k1 + k2 + k3 + k4) = Some (e, gs')"
    using match_Plain_SomeD [OF m3] by blast
  obtain k5 where k5: "k5 \<in> set (reps (One is_micr_glyph) (run_length (atom_class (One is_micr_glyph)) s (p + k1 + k2 + k3 + k4)))"
    and m5: "match_here R [] s (p + k1 + k2 + k3 + k4 + k5) = Some (e, gs')"
    using match_Plain_SomeD [OF m4] by blast
  have gs': "gs' = []" using m5 by simp
  have b1: "k1 \<le> run_length is_micr_glyph s p" "k1 = 1"
    using reps_bounds(1) [OF k1] reps_bounds(2) [OF k1 refl] by simp_all
  have b2: "k2 \<le> run_length (isspace R) s (p + k1)"
    using reps_bounds(1) [OF k2] by simp
  have b3: "k3 \<le> run_length (is_digit R) s (p + k1 + k2)" "1 \<le> k3"
    using reps_bounds(1) [OF k3] reps_bounds(3) [OF k3 refl] by simp_all
  have b4: "k4 \<le> run_length (isspace R) s (p + k1 + k2 + k3)"
    using reps_bounds(1) [OF k4] by simp
  have b5: "k5 \<le> run_length is_micr_glyph s (p + k1 + k2 + k3 + k4)" "k5 = 1"
    using reps_bounds(1) [OF k5] reps_bounds(2) [OF k5 refl] by simp_all
  define ws1 where "ws1 = take k2 (drop (p + k1) s)"
  define ds where "ds = take k3 (drop (p + k1 + k2) s)"
  define ws2 where "ws2 = take k4 (drop (p + k1 + k2 + k3) s)"
  define t1 where "t1 = take k1 (drop p s)"
  define t5 where "t5 = take k5 (drop (p + k1 + k2 + k3 + k4) s)"
  have e1: "drop p s = t1 @ drop (p + k1) s"
    and c1: "list_all is_micr_glyph t1" and l1: "length t1 = k1"
    unfolding t1_def using run_prefix [OF b1(1)] by blast+
  have e2: "drop (p + k1) s = ws1 @ drop (p + k1 + k2) s" and c2: "list_all (isspace R) ws1"
    unfolding ws1_def using run_prefix [OF b2] by blast+
  have e3: "drop (p + k1 + k2) s = ds @ drop (p + k1 + k2 + k3) s"
    and c3: "list_all (is_digit R) ds" and l3: "length ds = k3"
    unfolding ds_def using run_prefix [OF b3(1)] by blast+
  have e4: "drop (p + k1 + k2 + k3) s = ws2 @ drop (p + k1 + k2 + k3 + k4) s"
    and c4: "list_all (isspace R) ws2"
    unfolding ws2_def using run_prefix [OF b4] by blast+
  have e5: "drop (p + k1 + k2 + k3 + k4) s = t5 @ drop (p + k1 + k2 + k3 + k4 + k5) s"
    and c5: "list_all is_micr_glyph t5" and l5: "length t5 = k5"
    unfolding t5_def using run_prefix [OF b5(1)] by blast+
  obtain g1 where g1: "t1 = [g1]" using l1 b1(2) by (cases t1) auto
  obtain g2 where g2: "t5 = [g2]" using l5 b5(2) by (cases t5) auto
  have "drop p s = g1 # ws1 @ ds @ ws2 @ g2 # drop (p + k1 + k2 + k3 + k4 + k5) s"
    by (simp only: e1 g1 e2 e3 e4 e5 g2 append_Cons append_Nil)
  moreover have "is_micr_glyph g1" "is_micr_glyph g2" using c1 c5 g1 g2 by auto
  moreover have "ds \<noteq> []" using l3 b3(2) by auto
  ultimately have "bounded_at R s p ds"
    unfolding bounded_at_def using c2 c3 c4 by blast
  then show ?thesis using gs gs' ds_def by simp
qed

lemma findall_from_none:
  assumes "\<And>j. p \<le> j \<Longrightarrow> j \<le> length s \<Longrightarrow> match_here R pat s j = None"
  shows "findall_from R pat s p = []"
  using assms
proof (induction "Suc (length s) - p" arbitrary: p)
  case 0
  then show ?case by (subst findall_from.simps) simp
next
  case (Suc n)
  then have "findall_from R pat s (Suc p) = []" by simp
  moreover have "match_here R pat s p = None" using Suc by simp
  ultimately show ?case by (subst findall_from.simps) simp
qed

lemma findall_from_first:
  assumes "p \<le> i" and "i \<le> length s"
    and "\<And>j. p \<le> j \<Longrightarrow> j < i \<Longrightarrow> match_here R pat s j = None"
    and "match_here R pat s i = Some m"
  shows "\<exists>rest. findall_from R pat s p = match_text s i m # rest"
  using assms
proof (induction "i - p" arbitrary: p)
  case 0
  then have "p = i" by simp
  then show ?case
    using 0 by (subst findall_from.simps) (auto simp add: match_text_def split: prod.splits list.splits)
next
  case (Suc n)
  then have lt: "p < i" by simp
  then have "match_here R pat s p = None" using Suc by simp
  moreover have "\<exists>rest. findall_from R pat s (Suc p) = match_text s i m # rest"
    using Suc lt by (intro Suc.hyps) auto
  ultimately show ?case using lt Suc.prems(2) by (subst findall_from.simps) simp
qed

lemma run_length_ge_iff:
  assumes "0 < n"
  shows "n \<le> run_length C s p \<longleftrightarrow> p + n \<le> length s \<and> list_all C (take n (drop p s))"
proof
  assume le: "n \<le> run_length C s p"
  have "length (take n (drop p s)) = n" using run_prefix(3) [OF le] .
  then have "p + n \<le> length s" using assms by (cases "p \<le> length s") auto
  then show "p + n \<le> length s \<and> list_all C (take n (drop p s))"
    using run_prefix(2) [OF le] by simp
next
  assume a: "p + n \<le> length s \<and> list_all C (take n (drop p s))"
  have "takeWhile C (take n (drop p s) @ drop n (drop p s))
          = take n (drop p s) @ takeWhile C (drop n (drop p s))"
    using a by (intro takeWhile_append2) (simp add: list_all_iff)
  then have "length (takeWhile C (drop p s)) \<ge> length (take n (drop p s))"
    by (simp only: append_take_drop_id length_append)
  then show "n \<le> run_length C s p"
    using a by (auto simp add: run_length_def min_def split: if_splits)
qed

lemma six_digit_match:
  "match_here R (six_digit_pattern R) s p
     = (if six_digit_token_at R s p then Some (p + 6, []) else None)"
  by (auto simp add: six_digit_pattern_def six_digit_token_at_def run_length_ge_iff)

section \<open>The MICR parser\<close>

lemma bounded_at_in_range: "bounded_at R s i ds \<Longrightarrow> i < length s"
  unfolding bounded_at_def by (cases "i < length s") auto

lemma micr_findall_first:
  assumes R: "conformant R" and b: "bounded_at R s i ds"
    and first: "\<And>j ds'. j < i \<Longrightarrow> \<not> bounded_at R s j ds'"
  shows "\<exists>rest. findall R (micr_pattern R) s = ds # rest"
proof -
  obtain e where m: "match_here R (micr_pattern R) s i = Some (e, [ds])"
    using b micr_match_complete [OF R] unfolding bounded_at_def by blast
  have none: "match_here R (micr_pattern R) s j = None" if "j < i" for j
  proof (cases "match_here R (micr_pattern R) s j")
    case (Some m')
    then show ?thesis using micr_match_sound [of R s j "fst m'" "snd m'"] first [OF that] by auto
  qed simp
  have "i \<le> length s" using bounded_at_in_range [OF b] by simp
  then show ?thesis
    using findall_from_first [of 0 i s R "micr_pattern R", OF _ _ none m]
    by (simp add: findall_def match_text_def)
qed

lemma micr_findall_none:
  assumes "\<And>j ds'. \<not> bounded_at R s j ds'"
  shows "findall R (micr_pattern R) s = []"
proof -
  have "match_here R (micr_pattern R) s j = None" for j
  proof (cases "match_here R (micr_pattern R) s j")
    case (Some m')
    then show ?thesis using micr_match_sound [of R s j "fst m'" "snd m'"] assms by auto
  qed simp
  then show ?thesis unfolding findall_def by (intro findall_from_none)
qed

lemma six_digit_findall_first:
  assumes t: "six_digit_token_at R s i" and first: "\<And>j. j < i \<Longrightarrow> \<not> six_digit_token_at R s j"
  shows "\<exists>rest. findall R (six_digit_pattern R) s = take 6 (drop i s) # rest"
proof -
  have "i \<le> length s" using t by (simp add: six_digit_token_at_def)
  moreover have "match_here R (six_digit_pattern R) s i = Some (i + 6, [])"
    using t by (simp add: six_digit_match)
  moreover have "match_here R (six_digit_pattern R) s j = None" if "j < i" for j
    using first [OF that] by (simp add: six_digit_match)
  ultimately show ?thesis
    using findall_from_first [of 0 i s R "six_digit_pattern R" "(i + 6, [])"]
    by (simp add: findall_def match_text_def)
qed

lemma six_digit_findall_none:
  assumes "\<And>j. \<not> six_digit_token_at R s j"
  shows "findall R (six_digit_pattern R) s = []"
  unfolding findall_def using assms by (intro findall_from_none) (simp add: six_digit_match)

lemma extract_bounded:
  assumes "conformant R" and "bounded_at R s i ds"
    and "\<And>j ds'. j < i \<Longrightarrow> \<not> bounded_at R s j ds'"
  shows "extract_cheque_number_from_micr R (JStr s) = Some ds"
proof -
  obtain rest where "findall R (micr_pattern R) s = ds # rest"
    using micr_findall_first [OF assms] by blast
  moreover have "s \<noteq> []" using bounded_at_in_range [OF assms(2)] by auto
  ultimately show ?thesis
    by (simp add: extract_cheque_number_from_micr_def item_def)
qed

lemma extract_fallback:
  assumes "\<And>j ds'. \<not> bounded_at R s j ds'" and "six_digit_token_at R s i"
    and "\<And>j. j < i \<Longrightarrow> \<not> six_digit_token_at R s j"
  shows "extract_cheque_number_from_micr R (JStr s) = Some (take 6 (drop i s))"
proof -
  obtain rest where "findall R (six_digit_pattern R) s = take 6 (drop i s) # rest"
    using six_digit_findall_first [OF assms(2,3)] by blast
  moreover have "findall R (micr_pattern R) s = []"
    using assms(1) by (rule micr_findall_none)
  ultimately show ?thesis
    by (simp add: extract_cheque_number_from_micr_def item_def)
qed

lemma extract_nothing:
  assumes "\<And>j ds'. \<not> bounded_at R s j ds'" and "\<And>j. \<not> six_digit_token_at R s j"
  shows "extract_cheque_number_from_micr R (JStr s) = Some []"
  using micr_findall_none [of R s, OF assms(1)] six_digit_findall_none [of R s, OF assms(2)]
  by (simp add: extract_cheque_number_from_micr_def)

lemma bounded_at_has_glyph_and_digit:
  assumes "bounded_at R s j ds"
  shows "\<exists>c\<in>set s. is_micr_glyph c" and "\<exists>c\<in>set s. is_digit R c"
proof -
  obtain g1 ws1 ws2 g2 rest where d: "drop j s = g1 # ws1 @ ds @ ws2 @ g2 # rest"
    and g: "is_micr_glyph g1" and ne: "ds \<noteq> []" and dd: "list_all (is_digit R) ds"
    using assms unfolding bounded_at_def by blast
  have sub: "set (drop j s) \<subseteq> set s" by (rule set_drop_subset)
  have "g1 \<in> set (drop j s)" using d by simp
  then show "\<exists>c\<in>set s. is_micr_glyph c" using g sub by blast
  have "hd ds \<in> set (drop j s)" using d ne by (cases ds) auto
  moreover have "is_digit R (hd ds)" using ne dd by (cases ds) auto
  ultimately show "\<exists>c\<in>set s. is_digit R c" using sub by blast
qed

lemma six_digit_token_has_digit:
  assumes "six_digit_token_at R s j"
  shows "\<exists>c\<in>set s. is_digit R c"
proof -
  have l: "j < length s" and a: "list_all (is_digit R) (take 6 (drop j s))"
    using assms by (simp_all add: six_digit_token_at_def)
  have "drop j s = s ! j # drop (Suc j) s" using l by (simp add: Cons_nth_drop_Suc)
  then have "take 6 (drop j s) = s ! j # take 5 (drop (Suc j) s)" by (simp add: take_Cons')
  then have "s ! j \<in> set (take 6 (drop j s))" by simp
  then show ?thesis using a l by (auto simp add: list_all_iff)
qed


section \<open>Unwrapping a fenced reply\<close>

lemma startswith_contains: "startswith s sub \<Longrightarrow> contains s sub"
  by (cases s) (auto simp add: startswith_def)

lemma contains_append_left: "contains s sub \<Longrightarrow> contains (a @ s) sub"
  by (induction a) auto

lemma startswith_append: "startswith s sub \<Longrightarrow> startswith (s @ b) sub"
  by (auto simp add: startswith_def) (metis append_Nil2 take_append append_eq_append_conv length_take take_all_iff min.absorb4 nat_le_linear min.absorb2)

lemma contains_append_right: "contains s sub \<Longrightarrow> contains (s @ b) sub"
proof (induction s)
  case Nil
  then show ?case by (simp add: startswith_contains startswith_def)
next
  case (Cons c cs)
  then show ?case using startswith_append [of "c # cs" sub b] by auto
qed

lemma startswith_cross:
  assumes "x \<notin> set sep" and "\<not> startswith u sep"
  shows "\<not> startswith (u @ x # v) sep"
proof
  assume s: "startswith (u @ x # v) sep"
  show False
  proof (cases "length sep \<le> length u")
    case True
    then show ?thesis using s assms(2) by (simp add: startswith_def)
  next
    case False
    then have "take (length sep) (u @ x # v) = u @ x # take (length sep - Suc (length u)) v"
      by (simp add: take_Cons' not_le)
    then have "x \<in> set sep" using s by (simp add: startswith_def) (metis in_set_conv_decomp)
    then show ?thesis using assms(1) by simp
  qed
qed

lemma split_at_skip:
  assumes "sep \<noteq> []" and "x \<notin> set sep" and "\<not> contains u sep"
  shows "split_at sep cur (u @ x # v) = split_at sep (cur @ u @ [x]) v"
  using assms(3)
proof (induction u arbitrary: cur)
  case Nil
  have "\<not> startswith (x # v) sep"
    using assms(1,2) by (cases sep) (auto simp add: startswith_def)
  then show ?case by simp
next
  case (Cons c cs)
  then have "\<not> startswith (c # cs) sep" and nc: "\<not> contains cs sep" by auto
  then have "\<not> startswith ((c # cs) @ x # v) sep"
    using startswith_cross [OF assms(2)] by blast
  then show ?case using Cons.IH [OF nc, of "cur @ [c]"] by simp
qed

lemma split_at_no_occurrence:
  assumes "\<not> contains s sep"
  shows "split_at sep cur s = [cur @ s]"
  using assms by (induction s arbitrary: cur) auto

lemma strip_id:
  assumes "s \<noteq> []" and "\<not> isspace R (hd s)" and "\<not> isspace R (last s)"
  shows "strip R s = s"
proof -
  have "dropWhile (isspace R) s = s" using assms(1,2) by (cases s) auto
  moreover have "dropWhile (isspace R) (rev s) = rev s"
    using assms(1,3) by (cases "rev s") (auto simp add: last_rev [symmetric] simp del: last_rev)
  ultimately show ?thesis by (simp add: strip_def)
qed

lemma strip_Cons_space: "isspace R c \<Longrightarrow> strip R (c # s) = strip R s"
  by (simp add: strip_def)

lemma dropWhile_all: "(\<forall>x\<in>set s. P x) \<Longrightarrow> dropWhile P s = []"
  by (induction s) auto

lemma strip_snoc_space:
  assumes "isspace R c"
  shows "strip R (s @ [c]) = strip R s"
proof (cases "\<forall>x\<in>set s. isspace R x")
  case True
  then have a: "dropWhile (isspace R) s = []" and b: "dropWhile (isspace R) (s @ [c]) = []"
    using assms by (intro dropWhile_all; simp)+
  show ?thesis unfolding strip_def a b by simp
next
  case False
  then have "dropWhile (isspace R) (s @ [c]) = dropWhile (isspace R) s @ [c]"
    by (auto simp add: dropWhile_append1)
  then show ?thesis using assms by (simp add: strip_def)
qed

lemma strip_decompose: "\<exists>a b. s = a @ strip R s @ b"
proof -
  define y where "y = dropWhile (isspace R) s"
  have 1: "s = takeWhile (isspace R) s @ y" by (simp add: y_def)
  have "rev y = takeWhile (isspace R) (rev y) @ dropWhile (isspace R) (rev y)" by simp
  then have "y = rev (dropWhile (isspace R) (rev y)) @ rev (takeWhile (isspace R) (rev y))"
    by (metis rev_append rev_rev_ident)
  then have "y = strip R s @ rev (takeWhile (isspace R) (rev y))"
    by (simp add: strip_def y_def)
  then show ?thesis using 1 by metis
qed

lemma strip_no_fence:
  assumes "\<not> contains p sub"
  shows "\<not> startswith (strip R p) sub"
proof
  assume "startswith (strip R p) sub"
  then have "contains (strip R p) sub" by (rule startswith_contains)
  moreover obtain a b where "p = a @ strip R p @ b" using strip_decompose by blast
  ultimately have "contains p sub"
    using contains_append_left contains_append_right by metis
  then show False using assms by simp
qed

lemma conformant_newline: "conformant R \<Longrightarrow> isspace R 10"
  by (simp add: conformant_ascii ascii_space_def)

lemma conformant_backtick: "conformant R \<Longrightarrow> \<not> isspace R 96"
  by (simp add: conformant_ascii ascii_space_def)

lemma startswith_fence_json:
  assumes "startswith s fence_json"
  shows "startswith s fence"
proof -
  have "take (length fence) s = take (length fence) (take (length fence_json) s)"
    by (simp add: fence_json_def min_def)
  also have "\<dots> = take (length fence) fence_json"
    using assms by (simp add: startswith_def)
  also have "\<dots> = fence" by (simp add: fence_json_def)
  finally show ?thesis by (simp add: startswith_def)
qed

lemma contains_fence_json: "contains s fence_json \<Longrightarrow> contains s fence"
proof (induction s)
  case Nil
  then show ?case by (simp add: fence_json_def fence_def)
next
  case (Cons c cs)
  then show ?case using startswith_fence_json [of "c # cs"] by auto
qed

lemma unwrap_plain:
  assumes "\<not> contains p fence"
  shows "unwrap R p = Some (strip R p)"
proof -
  have "\<not> startswith (strip R p) fence" using assms by (rule strip_no_fence)
  moreover have "\<not> startswith (strip R p) fence_json"
    using assms contains_fence_json strip_no_fence by blast
  ultimately show ?thesis by (simp add: unwrap_def Let_def)
qed

lemma split_inner:
  assumes "\<not> contains p fence"
  shows "split ([10] @ p @ [10] @ fence) fence = [[10] @ p @ [10], []]"
    and "split ([10] @ p @ [10] @ fence) fence_json = [[10] @ p @ [10] @ fence]"
    and "split ([10] @ p @ [10]) fence = [[10] @ p @ [10]]"
proof -
  have n: "fence \<noteq> []" "(10::nat) \<notin> set fence" by (simp_all add: fence_def)
  have nj: "fence_json \<noteq> []" "(10::nat) \<notin> set fence_json"
    by (simp_all add: fence_json_def fence_def asc_def)
  have cj: "\<not> contains p fence_json" using assms contains_fence_json by blast
  have a: "split_at fence [] ([] @ 10 # p @ [10] @ fence) = split_at fence ([] @ [] @ [10]) (p @ [10] @ fence)"
    by (rule split_at_skip [OF n]) (simp add: n)
  have b: "split_at fence [10] (p @ 10 # fence) = split_at fence ([10] @ p @ [10]) fence"
    by (rule split_at_skip [OF n assms])
  have c: "split_at fence cur fence = [cur, []]" for cur
    by (simp add: fence_def startswith_def)
  show "split ([10] @ p @ [10] @ fence) fence = [[10] @ p @ [10], []]"
    using a b c by (simp add: split_def)
  have a': "split_at fence_json [] ([] @ 10 # p @ [10] @ fence)
              = split_at fence_json ([] @ [] @ [10]) (p @ [10] @ fence)"
    by (rule split_at_skip [OF nj]) (simp add: nj)
  have b': "split_at fence_json [10] (p @ 10 # fence) = split_at fence_json ([10] @ p @ [10]) fence"
    by (rule split_at_skip [OF nj cj])
  have c': "split_at fence_json cur fence = [cur @ fence]" for cur
    by (simp add: fence_def fence_json_def startswith_def asc_def)
  show "split ([10] @ p @ [10] @ fence) fence_json = [[10] @ p @ [10] @ fence]"
    using a' b' c' by (simp add: split_def)
  have d: "split_at fence [] ([] @ 10 # p @ [10]) = split_at fence ([] @ [] @ [10]) (p @ [10])"
    by (rule split_at_skip [OF n]) (simp add: n)
  have e: "split_at fence [10] (p @ 10 # []) = split_at fence ([10] @ p @ [10]) []"
    by (rule split_at_skip [OF n assms])
  show "split ([10] @ p @ [10]) fence = [[10] @ p @ [10]]"
    using d e by (simp add: split_def)
qed

lemma split_at_prefix:
  assumes "sep \<noteq> []"
  shows "split_at sep cur (sep @ rest) = cur # split_at sep [] rest"
proof -
  obtain c cs where s: "sep @ rest = c # cs" using assms by (cases sep) auto
  have "startswith (sep @ rest) sep" by (simp add: startswith_def)
  then have "split_at sep cur (c # cs) = cur # split_at sep [] (drop (length sep) (c # cs))"
    using assms s by simp
  then show ?thesis using s by (metis append_eq_conv_conj)
qed

lemma strip_padded:
  assumes "conformant R"
  shows "strip R ([10] @ p @ [10]) = strip R p"
  using strip_snoc_space [OF conformant_newline [OF assms], of "10 # p"]
    strip_Cons_space [OF conformant_newline [OF assms], of p]
  by simp

lemma unwrap_fenced_json:
  assumes R: "conformant R" and p: "\<not> contains p fence"
  shows "unwrap R (fenced_json p) = Some (strip R p)"
proof -
  define t where "t = fenced_json p"
  have ne: "fence_json \<noteq> []" "fence \<noteq> []" by (simp_all add: fence_json_def fence_def)
  have "t \<noteq> []" "hd t = 96" "last t = 96"
    by (simp_all add: t_def fenced_json_def fence_json_def fence_def)
  then have st: "strip R t = t"
    using conformant_backtick [OF R] by (intro strip_id) simp_all
  have sw: "startswith t fence_json"
    by (simp add: t_def fenced_json_def startswith_def)
  have "split t fence_json = [] # split ([10] @ p @ [10] @ fence) fence_json"
    unfolding split_def t_def fenced_json_def by (rule split_at_prefix [OF ne(1)])
  then have 1: "item (split t fence_json) 1 = Some ([10] @ p @ [10] @ fence)"
    using split_inner(2) [OF p] by (simp add: item_def)
  have 2: "item (split ([10] @ p @ [10] @ fence) fence) 0 = Some ([10] @ p @ [10])"
    using split_inner(1) [OF p] by (simp add: item_def)
  show ?thesis
    unfolding t_def [symmetric] unwrap_def Let_def st
    using sw 1 2 strip_padded [OF R, of p] by simp
qed

lemma unwrap_fenced_plain:
  assumes R: "conformant R" and p: "\<not> contains p fence"
  shows "unwrap R (fenced_plain p) = Some (strip R p)"
proof -
  define t where "t = fenced_plain p"
  have ne: "fence \<noteq> []" by (simp add: fence_def)
  have "t \<noteq> []" "hd t = 96" "last t = 96"
    by (simp_all add: t_def fenced_plain_def fence_def)
  then have st: "strip R t = t"
    using conformant_backtick [OF R] by (intro strip_id) simp_all
  have nsw: "\<not> startswith t fence_json"
    by (simp add: t_def fenced_plain_def startswith_def fence_json_def fence_def asc_def)
  have sw: "startswith t fence"
    by (simp add: t_def fenced_plain_def startswith_def)
  have "split t fence = [] # split ([10] @ p @ [10] @ fence) fence"
    unfolding split_def t_def fenced_plain_def by (rule split_at_prefix [OF ne])
  then have 1: "item (split t fence) 1 = Some ([10] @ p @ [10])"
    using split_inner(1) [OF p] by (simp add: item_def)
  have 2: "item (split ([10] @ p @ [10]) fence) 0 = Some ([10] @ p @ [10])"
    using split_inner(3) [OF p] by (simp add: item_def)
  show ?thesis
    unfolding t_def [symmetric] unwrap_def Let_def st
    using sw nsw 1 2 strip_padded [OF R, of p] by simp
qed

lemma ascii_runtime_space: "isspace ascii_runtime c = (c < 128 \<and> ascii_space c)"
  by (simp add: ascii_runtime_def)


section \<open>The records of the normalizers\<close>

lemma asc_eq_iff [simp]: "asc a = asc b \<longleftrightarrow> a = b"
proof -
  have "inj (of_char :: char \<Rightarrow> nat)" by (simp add: inj_def)
  then show ?thesis unfolding asc_def by (rule inj_map_eq_map)
qed

lemma field_obj: "field (JObj kvs) k = Some (asc k, upstream kvs k)"
  by (simp add: field_def dict_get_def upstream_def)

lemma dict_get_obj: "dict_get (JObj kvs) (asc k) (JStr []) = Some (upstream kvs k)"
  by (simp add: dict_get_def upstream_def)

lemma format_falsy: "\<not> truthy a \<Longrightarrow> format_indian_currency R a = Some []"
  by (simp add: format_indian_currency_def)

lemma cheque_record_obj:
  "cheque_record R E (JObj kvs) = Some r \<longleftrightarrow>
     (\<exists>cn fa. extract_cheque_number_from_micr R (upstream kvs ''micr_code'') = Some cn
        \<and> format_indian_currency R (upstream kvs ''amount_numbers'') = Some fa
        \<and> r = [(asc ''document_type'', JStr (asc ''cheque'')),
                (asc ''bank_name'', upstream kvs ''bank_name''),
                (asc ''account_holder_name'', upstream kvs ''account_holder_name''),
                (asc ''payee_name'', upstream kvs ''payee_name''),
                (asc ''amount_words'', upstream kvs ''amount_words''),
                (asc ''amount_numbers'', upstream kvs ''amount_numbers''),
                (asc ''amount_formatted'', JStr fa),
                (asc ''date'', upstream kvs ''date''),
                (asc ''account_number'', upstream kvs ''account_number''),
                (asc ''ifsc_code'', upstream kvs ''ifsc_code''),
                (asc ''micr_code'', upstream kvs ''micr_code''),
                (asc ''cheque_number'', JStr cn),
                (asc ''prefix_number'', upstream kvs ''prefix_number''),
                (asc ''branch_name'', upstream kvs ''branch_name''),
                (asc ''branch_code'', upstream kvs ''branch_code''),
                (asc ''extracted_at'', JStr (isoformat_now E))])"
  by (cases "truthy (upstream kvs ''amount_numbers'')")
     (auto simp add: cheque_record_def field_obj dict_get_obj bind_eq_Some_conv format_falsy)

lemma passbook_record_obj:
  "passbook_record R E (JObj kvs) =
     Some [(asc ''document_type'', JStr (asc ''passbook'')),
           (asc ''cif_number'', upstream kvs ''cif_number''),
           (asc ''account_number'', upstream kvs ''account_number''),
           (asc ''customer_name'', upstream kvs ''customer_name''),
           (asc ''father_husband_name'', upstream kvs ''father_husband_name''),
           (asc ''address'', upstream kvs ''address''),
           (asc ''phone'', upstream kvs ''phone''),
           (asc ''email'', upstream kvs ''email''),
           (asc ''date_of_birth'', upstream kvs ''date_of_birth''),
           (asc ''minor_status'', upstream kvs ''minor_status''),
           (asc ''nominee_reg_number'', upstream kvs ''nominee_reg_number''),
           (asc ''branch_name'', upstream kvs ''branch_name''),
           (asc ''branch_code'', upstream kvs ''branch_code''),
           (asc ''ifsc_code'', upstream kvs ''ifsc_code''),
           (asc ''micr_code'', upstream kvs ''micr_code''),
           (asc ''account_type'', upstream kvs ''account_type''),
           (asc ''date_of_issue'', upstream kvs ''date_of_issue''),
           (asc ''date_of_activation'', upstream kvs ''date_of_activation''),
           (asc ''extracted_at'', JStr (isoformat_now E))]"
  by (simp add: passbook_record_def field_obj)

lemma append_labelled_obj:
  "append_labelled R (JObj kvs) k label parts = Some (parts @ map JStr (labelled_part R kvs k label))"
  by (simp add: append_labelled_def dict_get_def dict_item_def labelled_part_def split: option.splits)

lemma append_plain_obj:
  "append_plain (JObj kvs) k parts = Some (parts @ raw_part kvs k)"
  by (simp add: append_plain_def dict_get_def dict_item_def raw_part_def split: option.splits)

lemma str_items_append:
  "str_items (xs @ ys)
     = (case (str_items xs, str_items ys) of (Some a, Some b) \<Rightarrow> Some (a @ b) | _ \<Rightarrow> None)"
  by (induction xs rule: str_items.induct) (auto split: option.splits)

lemma str_items_map_JStr: "str_items (map JStr ls) = Some ls"
  by (induction ls) auto

lemma str_items_raw_part:
  "str_items (raw_part kvs k) = (if str_or_falsy kvs k then Some (plain_part kvs k) else None)"
  by (auto simp add: raw_part_def str_or_falsy_def plain_part_def split: option.splits json.splits)

lemma filter_truthy_raw_part: "filter truthy (raw_part kvs k) = raw_part kvs k"
  by (simp add: raw_part_def split: option.splits)

lemma filter_truthy_labelled:
  "label \<noteq> [] \<Longrightarrow> filter truthy (map JStr (labelled_part R kvs k label)) = map JStr (labelled_part R kvs k label)"
  by (simp add: labelled_part_def asc_def split: option.splits)

lemma gst_record_obj:
  "gst_record R E (JObj kvs) =
     (if str_or_falsy kvs ''premises_name'' \<and> str_or_falsy kvs ''road_street'' \<and> str_or_falsy kvs ''locality''
      then Some [(asc ''document_type'', JStr (asc ''gst_certificate'')),
                 (asc ''registration_number'', upstream kvs ''registration_number''),
                 (asc ''legal_name'', upstream kvs ''legal_name''),
                 (asc ''trade_name'', upstream kvs ''trade_name''),
                 (asc ''constitution'', upstream kvs ''constitution''),
                 (asc ''floor_number'', upstream kvs ''floor_number''),
                 (asc ''building_number'', upstream kvs ''building_number''),
                 (asc ''premises_name'', upstream kvs ''premises_name''),
                 (asc ''road_street'', upstream kvs ''road_street''),
                 (asc ''locality'', upstream kvs ''locality''),
                 (asc ''full_address'', JStr (address_line R kvs)),
                 (asc ''city'', upstream kvs ''city''),
                 (asc ''district'', upstream kvs ''district''),
                 (asc ''state'', upstream kvs ''state''),
                 (asc ''pin_code'', upstream kvs ''pin_code''),
                 (asc ''validity_from'', upstream kvs ''validity_from''),
                 (asc ''validity_to'', upstream kvs ''validity_to''),
                 (asc ''registration_type'', upstream kvs ''registration_type''),
                 (asc ''approving_officer'', upstream kvs ''approving_officer''),
                 (asc ''designation'', upstream kvs ''designation''),
                 (asc ''office'', upstream kvs ''office''),
                 (asc ''issue_date'', upstream kvs ''issue_date''),
                 (asc ''extracted_at'', JStr (isoformat_now E))]
      else None)"
  by (simp add: gst_record_def append_labelled_obj append_plain_obj join_values_def
      filter_truthy_raw_part filter_truthy_labelled str_items_append str_items_map_JStr
      str_items_raw_part address_line_def field_obj)

lemma build_record_not_obj:
  assumes "build_record kind R E j = Some r"
  shows "\<exists>kvs. j = JObj kvs"
proof (cases j)
  case (JObj kvs)
  then show ?thesis by simp
qed (use assms in \<open>cases kind; simp add: cheque_record_def passbook_record_def gst_record_def
      dict_get_def field_def append_labelled_def\<close>)+





lemma upstream_absent: "map_of kvs (asc k) = None \<Longrightarrow> upstream kvs k = JStr []"
  by (simp add: upstream_def)

lemma raw_fields_simps:
  "raw_fields Cheque =
     [''bank_name'', ''account_holder_name'', ''payee_name'', ''amount_words'', ''amount_numbers'',
      ''date'', ''account_number'', ''ifsc_code'', ''micr_code'', ''prefix_number'', ''branch_name'',
      ''branch_code'']"
  "raw_fields Gst =
     [''registration_number'', ''legal_name'', ''trade_name'', ''constitution'', ''floor_number'',
      ''building_number'', ''premises_name'', ''road_street'', ''locality'', ''city'', ''district'',
      ''state'', ''pin_code'', ''validity_from'', ''validity_to'', ''registration_type'',
      ''approving_officer'', ''designation'', ''office'', ''issue_date'']"
  "raw_fields Passbook =
     [''cif_number'', ''account_number'', ''customer_name'', ''father_husband_name'', ''address'',
      ''phone'', ''email'', ''date_of_birth'', ''minor_status'', ''nominee_reg_number'',
      ''branch_name'', ''branch_code'', ''ifsc_code'', ''micr_code'', ''account_type'',
      ''date_of_issue'', ''date_of_activation'']"
  by (simp_all add: raw_fields_def computed_fields_def)

lemma computed_keys:
  "set (record_keys Cheque) - set (raw_fields Cheque)
     = {''document_type'', ''amount_formatted'', ''cheque_number'', ''extracted_at''}"
  "set (record_keys Gst) - set (raw_fields Gst)
     = {''document_type'', ''full_address'', ''extracted_at''}"
  "set (record_keys Passbook) - set (raw_fields Passbook) = {''document_type'', ''extracted_at''}"
  by (simp_all add: raw_fields_simps) (auto)

lemma cheque_shape:
  assumes "cheque_record R E (JObj kvs) = Some r"
  shows "map fst r = map asc (record_keys Cheque)"
    and "\<forall>k\<in>set (raw_fields Cheque). map_of r (asc k) = Some (upstream kvs k)"
    and "\<forall>k\<in>set (record_keys Cheque) - set (raw_fields Cheque). is_str (map_of r (asc k))"
proof -
  show "map fst r = map asc (record_keys Cheque)"
    using assms unfolding cheque_record_obj by clarsimp
  show "\<forall>k\<in>set (raw_fields Cheque). map_of r (asc k) = Some (upstream kvs k)"
    using assms unfolding cheque_record_obj by (clarsimp simp add: raw_fields_simps)
  show "\<forall>k\<in>set (record_keys Cheque) - set (raw_fields Cheque). is_str (map_of r (asc k))"
    using assms unfolding cheque_record_obj computed_keys by (clarsimp simp add: is_str_def)
qed

lemma passbook_shape:
  assumes "passbook_record R E (JObj kvs) = Some r"
  shows "map fst r = map asc (record_keys Passbook)"
    and "\<forall>k\<in>set (raw_fields Passbook). map_of r (asc k) = Some (upstream kvs k)"
    and "\<forall>k\<in>set (record_keys Passbook) - set (raw_fields Passbook). is_str (map_of r (asc k))"
proof -
  show "map fst r = map asc (record_keys Passbook)"
    using assms unfolding passbook_record_obj by clarsimp
  show "\<forall>k\<in>set (raw_fields Passbook). map_of r (asc k) = Some (upstream kvs k)"
    using assms unfolding passbook_record_obj by (clarsimp simp add: raw_fields_simps)
  show "\<forall>k\<in>set (record_keys Passbook) - set (raw_fields Passbook). is_str (map_of r (asc k))"
    using assms unfolding passbook_record_obj computed_keys by (clarsimp simp add: is_str_def)
qed

lemma gst_shape:
  assumes "gst_record R E (JObj kvs) = Some r"
  shows "map fst r = map asc (record_keys Gst)"
    and "\<forall>k\<in>set (raw_fields Gst). map_of r (asc k) = Some (upstream kvs k)"
    and "\<forall>k\<in>set (record_keys Gst) - set (raw_fields Gst). is_str (map_of r (asc k))"
proof -
  have ok: "str_or_falsy kvs ''premises_name'' \<and> str_or_falsy kvs ''road_street'' \<and> str_or_falsy kvs ''locality''"
    using assms unfolding gst_record_obj by (simp split: if_splits)
  note r = assms [unfolded gst_record_obj if_P [OF ok]]
  show "map fst r = map asc (record_keys Gst)"
    using r by clarsimp
  show "\<forall>k\<in>set (raw_fields Gst). map_of r (asc k) = Some (upstream kvs k)"
    using r by (clarsimp simp add: raw_fields_simps)
  show "\<forall>k\<in>set (record_keys Gst) - set (raw_fields Gst). is_str (map_of r (asc k))"
    using r unfolding computed_keys by (clarsimp simp add: is_str_def)
qed

lemma record_shape:
  assumes "build_record kind R E (JObj kvs) = Some r"
  shows "map fst r = map asc (record_keys kind)"
    and "\<forall>k\<in>set (raw_fields kind). map_of r (asc k) = Some (upstream kvs k)"
    and "\<forall>k\<in>set (record_keys kind) - set (raw_fields kind). is_str (map_of r (asc k))"
proof -
  show "map fst r = map asc (record_keys kind)"
    using assms cheque_shape(1) gst_shape(1) passbook_shape(1) by (cases kind) simp_all
  show "\<forall>k\<in>set (raw_fields kind). map_of r (asc k) = Some (upstream kvs k)"
    using assms cheque_shape(2) gst_shape(2) passbook_shape(2) by (cases kind) simp_all
  show "\<forall>k\<in>set (record_keys kind) - set (raw_fields kind). is_str (map_of r (asc k))"
    using assms cheque_shape(3) gst_shape(3) passbook_shape(3) by (cases kind) simp_all
qed

lemma unwrap_null_bank_reply: "unwrap ascii_runtime null_bank_reply = Some null_bank_reply"
  by (simp add: unwrap_def null_bank_reply_def fence_def fence_json_def asc_def strip_def
      ascii_runtime_space ascii_space_def startswith_def)

lemma helpers_empty:
  "extract_cheque_number_from_micr R (JStr []) = Some []"
  "format_indian_currency R (JStr []) = Some []"
  by (simp_all add: extract_cheque_number_from_micr_def format_indian_currency_def)









lemma ascii_runtime_truthy_str: "py_str ascii_runtime (JStr s) = s"
  by (simp add: py_str_def)



section \<open>The claims\<close>

subsection \<open>C1: the currency formatter\<close>

text \<open>
  C1. For every input string \<open>s\<close> with at most \<open>int_max_str_digits\<close> (4300) digit
  characters, \<open>format_indian_currency\<close> returns the empty string when \<open>s\<close> contains
  no digit character, and otherwise the rupee sign, a space, \<open>D\<close> and \<open>/-\<close>, where
  \<open>D\<close> is the decimal representation of the integer formed by the digit characters of
  \<open>s\<close> (every other character stripped), grouped by the Indian convention: the last
  three digits form one group and the digits before them are grouped in pairs from the
  right, the groups separated by commas. With more digit characters \<open>int\<close> raises
  ValueError. For a conformant character database, \<open>str_nat n\<close> is the decimal
  representation of \<open>n\<close> (digits only, denoting \<open>n\<close>, no leading zero), and the four
  examples of the specification hold: 5000000, 100, the empty string and abc.
\<close>

theorem format_indian_currency_correct:
  "(length (filter (is_digit R) s) \<le> int_max_str_digits \<longrightarrow>
      format_indian_currency R (JStr s)
        = Some (let ds = filter (is_digit R) s in
                if ds = [] then []
                else [8377, 32] @ indian_grouping (str_nat (digits_value R ds)) @ asc ''/-''))
   \<and> (int_max_str_digits < length (filter (is_digit R) s) \<longrightarrow>
        format_indian_currency R (JStr s) = None)
   \<and> (conformant R \<longrightarrow>
        list_all (is_digit R) (str_nat n) \<and> digits_value R (str_nat n) = n
        \<and> (str_nat n = [48] \<or> hd (str_nat n) \<noteq> 48)
        \<and> format_indian_currency R (JStr (asc ''5000000'')) = Some ([8377, 32] @ asc ''50,00,000/-'')
        \<and> format_indian_currency R (JStr (asc ''100'')) = Some ([8377, 32] @ asc ''100/-'')
        \<and> format_indian_currency R (JStr []) = Some []
        \<and> format_indian_currency R (JStr (asc ''abc'')) = Some [])"
  using format_indian_currency_within [of R s] format_indian_currency_beyond [of R s]
    str_nat_decimal [of R n] format_examples [of R]
  by blast

text \<open>
  Not for every string: on a string of 4301 digits \<open>int\<close> raises, so the formatter
  returns nothing.
\<close>

theorem format_indian_currency_counterexample:
  "format_indian_currency ascii_runtime (JStr (replicate 4301 57)) = None"
proof -
  have "is_digit ascii_runtime 57"
    by (simp add: is_digit_def ascii_runtime_def ascii_decimal_def)
  then have "filter (is_digit ascii_runtime) (replicate 4301 57) = replicate 4301 57"
    by simp
  then show ?thesis
    by (simp add: format_indian_currency_str int_max_str_digits_def)
qed

text \<open>
  The theorem at the ASCII character data, on inputs with separators and leading zeros,
  and on 4301 digits.
\<close>

theorem format_indian_currency_witness:
  "conformant ascii_runtime
   \<and> format_indian_currency ascii_runtime (JStr (asc ''Rs. 12,34,567.89''))
       = Some ([8377, 32] @ asc ''12,34,56,789/-'')
   \<and> format_indian_currency ascii_runtime (JStr (asc ''007'')) = Some ([8377, 32] @ asc ''7/-'')
   \<and> format_indian_currency ascii_runtime (JStr (asc ''1000'')) = Some ([8377, 32] @ asc ''1,000/-'')
   \<and> format_indian_currency ascii_runtime (JStr (asc ''5000000''))
       = Some ([8377, 32] @ asc ''50,00,000/-'')
   \<and> digits_value ascii_runtime (str_nat 5000000) = 5000000
   \<and> format_indian_currency ascii_runtime (JStr (replicate 4301 48)) = None"
proof -
  have c: "conformant ascii_runtime" by (rule conformant_ascii_runtime)
  have d: "is_digit ascii_runtime c = (48 \<le> c \<and> c \<le> 57)" if "c < 128" for c
    using conformant_is_digit [OF c that] .
  have v: "decimal ascii_runtime c = ascii_decimal c" if "c < 128" for c
    using conformant_ascii(1) [OF c that] .
  have 1: "format_indian_currency ascii_runtime (JStr (asc ''Rs. 12,34,567.89''))
       = Some ([8377, 32] @ asc ''12,34,56,789/-'')"
    using format_indian_currency_correct [of ascii_runtime "asc ''Rs. 12,34,567.89''" 0]
    by (simp add: asc_def d v ascii_decimal_def digits_value_Cons digits_value_Nil str_nat.simps
        indian_grouping_def pairs_from_right_def int_max_str_digits_def)
  have 2: "format_indian_currency ascii_runtime (JStr (asc ''007'')) = Some ([8377, 32] @ asc ''7/-'')"
    using format_indian_currency_correct [of ascii_runtime "asc ''007''" 0]
    by (simp add: asc_def d v ascii_decimal_def digits_value_Cons digits_value_Nil str_nat.simps
        indian_grouping_def pairs_from_right_def int_max_str_digits_def)
  have 3: "format_indian_currency ascii_runtime (JStr (asc ''1000'')) = Some ([8377, 32] @ asc ''1,000/-'')"
    using format_indian_currency_correct [of ascii_runtime "asc ''1000''" 0]
    by (simp add: asc_def d v ascii_decimal_def digits_value_Cons digits_value_Nil str_nat.simps
        indian_grouping_def pairs_from_right_def int_max_str_digits_def)
  have "filter (is_digit ascii_runtime) (replicate 4301 48) = replicate 4301 48"
    by (simp add: d)
  then have 4: "format_indian_currency ascii_runtime (JStr (replicate 4301 48)) = None"
    using format_indian_currency_correct [of ascii_runtime "replicate 4301 48" 0]
    by (simp add: int_max_str_digits_def)
  show ?thesis
    using c 1 2 3 4 format_indian_currency_correct [of ascii_runtime "[]" 5000000] by simp
qed


subsection \<open>C2: the MICR parser\<close>

text \<open>
  C2. For every MICR string \<open>s\<close> (and a conformant character database),
  \<open>extract_cheque_number_from_micr\<close> returns the leftmost digit sequence enclosed
  between two MICR glyphs (either pairing of the two glyphs, white space allowed between
  a glyph and the digits) when such a bounded match exists; otherwise the first
  six-digit token bounded by word boundaries, if any; otherwise the empty string. In
  particular a string without a MICR glyph gives its first six-digit token, a string
  without a digit gives the empty string, the example line of the specification gives
  343242 and the lone token 123456 gives 123456.
\<close>

theorem extract_cheque_number_correct:
  "conformant R \<longrightarrow>
     (bounded_at R s i ds \<and> (\<forall>j<i. \<forall>ds'. \<not> bounded_at R s j ds')
        \<longrightarrow> extract_cheque_number_from_micr R (JStr s) = Some ds)
   \<and> ((\<forall>j ds'. \<not> bounded_at R s j ds') \<and> six_digit_token_at R s i
         \<and> (\<forall>j<i. \<not> six_digit_token_at R s j)
        \<longrightarrow> extract_cheque_number_from_micr R (JStr s) = Some (take 6 (drop i s)))
   \<and> ((\<forall>j ds'. \<not> bounded_at R s j ds') \<and> (\<forall>j. \<not> six_digit_token_at R s j)
        \<longrightarrow> extract_cheque_number_from_micr R (JStr s) = Some [])
   \<and> ((\<forall>c\<in>set s. \<not> is_micr_glyph c) \<and> six_digit_token_at R s i
         \<and> (\<forall>j<i. \<not> six_digit_token_at R s j)
        \<longrightarrow> extract_cheque_number_from_micr R (JStr s) = Some (take 6 (drop i s)))
   \<and> ((\<forall>c\<in>set s. \<not> is_digit R c)
        \<longrightarrow> extract_cheque_number_from_micr R (JStr s) = Some [])
   \<and> extract_cheque_number_from_micr R (JStr micr_example) = Some (asc ''343242'')
   \<and> extract_cheque_number_from_micr R (JStr (asc ''123456'')) = Some (asc ''123456'')"
proof (intro impI conjI)
  assume R: "conformant R"
  show "extract_cheque_number_from_micr R (JStr s) = Some ds"
    if "bounded_at R s i ds \<and> (\<forall>j<i. \<forall>ds'. \<not> bounded_at R s j ds')"
    using that extract_bounded [OF R, of s i ds] by blast
  show "extract_cheque_number_from_micr R (JStr s) = Some (take 6 (drop i s))"
    if "(\<forall>j ds'. \<not> bounded_at R s j ds') \<and> six_digit_token_at R s i
         \<and> (\<forall>j<i. \<not> six_digit_token_at R s j)"
    using that extract_fallback [of R s i] by blast
  show "extract_cheque_number_from_micr R (JStr s) = Some []"
    if "(\<forall>j ds'. \<not> bounded_at R s j ds') \<and> (\<forall>j. \<not> six_digit_token_at R s j)"
    using that extract_nothing [of R s] by blast
  show "extract_cheque_number_from_micr R (JStr s) = Some (take 6 (drop i s))"
    if "(\<forall>c\<in>set s. \<not> is_micr_glyph c) \<and> six_digit_token_at R s i
         \<and> (\<forall>j<i. \<not> six_digit_token_at R s j)"
    using that extract_fallback [of R s i] bounded_at_has_glyph_and_digit(1) [of R s] by blast
  show "extract_cheque_number_from_micr R (JStr s) = Some []"
    if "\<forall>c\<in>set s. \<not> is_digit R c"
    using that extract_nothing [of R s] bounded_at_has_glyph_and_digit(2) [of R s]
      six_digit_token_has_digit [of R s] by blast
  show "extract_cheque_number_from_micr R (JStr micr_example) = Some (asc ''343242'')"
  proof -
    have "drop 0 micr_example
            = 9288 # [] @ asc ''343242'' @ [] @ 9288 # (asc '' 520002206'' @ [9286] @ asc '' 000860''
                @ [9288] @ asc '' 24'')"
      by (simp add: micr_example_def)
    moreover have "list_all (is_digit R) (asc ''343242'')"
      using R by (simp add: asc_def conformant_is_digit)
    ultimately have "bounded_at R micr_example 0 (asc ''343242'')"
      unfolding bounded_at_def
      by (intro exI [of _ 9288] exI [of _ "[]"] exI) (auto simp add: is_micr_glyph_def asc_def)
    then show ?thesis using extract_bounded [OF R, of micr_example 0] by simp
  qed
  show "extract_cheque_number_from_micr R (JStr (asc ''123456'')) = Some (asc ''123456'')"
  proof -
    have g: "\<forall>c\<in>set (asc ''123456''). \<not> is_micr_glyph c"
      by (simp add: asc_def is_micr_glyph_def)
    have "six_digit_token_at R (asc ''123456'') 0"
      using R by (simp add: six_digit_token_at_def asc_def conformant_is_digit word_boundary_def
          is_word_def conformant_ascii ascii_alnum_def)
    then show ?thesis
      using extract_fallback [of R "asc ''123456''" 0] g
        bounded_at_has_glyph_and_digit(1) [of R "asc ''123456''"]
      by (simp add: asc_def) blast
  qed
qed

text \<open>The theorem at the ASCII character data: each hypothesis holds at a concrete line.\<close>

theorem extract_cheque_number_witness:
  "conformant ascii_runtime
   \<and> bounded_at ascii_runtime micr_example 0 (asc ''343242'')
   \<and> extract_cheque_number_from_micr ascii_runtime (JStr micr_example) = Some (asc ''343242'')
   \<and> six_digit_token_at ascii_runtime (asc ''12 654321'') 3
   \<and> extract_cheque_number_from_micr ascii_runtime (JStr (asc ''12 654321'')) = Some (asc ''654321'')
   \<and> extract_cheque_number_from_micr ascii_runtime (JStr (asc ''no digits'')) = Some []"
proof -
  have c: "conformant ascii_runtime" by (rule conformant_ascii_runtime)
  have d: "is_digit ascii_runtime c = (48 \<le> c \<and> c \<le> 57)" if "c < 128" for c
    using conformant_is_digit [OF c that] .
  have a: "isalnum ascii_runtime c = ascii_alnum c" if "c < 128" for c
    using conformant_ascii(3) [OF c that] .
  have "drop 0 micr_example
          = 9288 # [] @ asc ''343242'' @ [] @ 9288 # (asc '' 520002206'' @ [9286] @ asc '' 000860''
              @ [9288] @ asc '' 24'')"
    by (simp add: micr_example_def)
  moreover have "list_all (is_digit ascii_runtime) (asc ''343242'')"
    by (simp add: asc_def d)
  ultimately have b: "bounded_at ascii_runtime micr_example 0 (asc ''343242'')"
    unfolding bounded_at_def
    by (intro exI [of _ 9288] exI [of _ "[]"] exI) (auto simp add: is_micr_glyph_def asc_def)
  have 1: "extract_cheque_number_from_micr ascii_runtime (JStr micr_example) = Some (asc ''343242'')"
    using extract_cheque_number_correct [of ascii_runtime micr_example 0 "asc ''343242''"] c b
    by simp
  have t: "six_digit_token_at ascii_runtime (asc ''12 654321'') 3"
    by (simp add: six_digit_token_at_def asc_def d a word_boundary_def is_word_def ascii_alnum_def)
  have f: "\<forall>j<3. \<not> six_digit_token_at ascii_runtime (asc ''12 654321'') j"
  proof (intro allI impI)
    fix j :: nat
    assume "j < 3"
    then consider "j = 0" | "j = 1" | "j = 2" by linarith
    then show "\<not> six_digit_token_at ascii_runtime (asc ''12 654321'') j"
      by cases (simp_all add: six_digit_token_at_def asc_def d)
  qed
  have g: "\<forall>c\<in>set (asc ''12 654321''). \<not> is_micr_glyph c"
    by (simp add: asc_def is_micr_glyph_def)
  have 2: "extract_cheque_number_from_micr ascii_runtime (JStr (asc ''12 654321'')) = Some (asc ''654321'')"
    using extract_cheque_number_correct [of ascii_runtime "asc ''12 654321''" 3] c t f g
    by (simp add: asc_def)
  have n: "\<forall>c\<in>set (asc ''no digits''). \<not> is_digit ascii_runtime c"
    by (simp add: asc_def d)
  have 3: "extract_cheque_number_from_micr ascii_runtime (JStr (asc ''no digits'')) = Some []"
    using extract_cheque_number_correct [of ascii_runtime "asc ''no digits''"] c n by blast
  show ?thesis using c b 1 t 2 3 by blast
qed

subsection \<open>C6: fenced and unfenced replies\<close>

text \<open>
  C6. For every payload \<open>p\<close> that does not contain the fence marker (three backquotes),
  unwrapping gives the stripped payload whether the reply is \<open>p\<close> itself, \<open>p\<close> in a
  fenced block tagged \<open>json\<close>, or \<open>p\<close> in a fenced block without a tag; so the three
  replies decode to the same value (or all fail to decode).
\<close>

theorem unwrap_fence_invariant:
  "conformant R \<and> \<not> contains p fence \<longrightarrow>
     unwrap R p = Some (strip R p)
     \<and> unwrap R (fenced_json p) = Some (strip R p)
     \<and> unwrap R (fenced_plain p) = Some (strip R p)
     \<and> parse_reply R E p = json_loads E (strip R p)
     \<and> parse_reply R E (fenced_json p) = parse_reply R E p
     \<and> parse_reply R E (fenced_plain p) = parse_reply R E p"
  using unwrap_plain [of p R] unwrap_fenced_json [of R p] unwrap_fenced_plain [of R p]
  by (simp add: parse_reply_def)


text \<open>
  The restriction on \<open>p\<close> is needed. The JSON document \<open>quoted_fence_payload\<close> contains
  the marker inside a string: unfenced it reaches the decoder whole, but in a fenced
  block (tagged or not) \<open>split\<close> cuts it at the marker inside the string, and the decoder
  is given the fragment before that marker and raises.
\<close>

theorem unwrap_fence_counterexample:
  "unwrap ascii_runtime quoted_fence_payload = Some quoted_fence_payload
   \<and> unwrap ascii_runtime (fenced_json quoted_fence_payload) = Some [123, 34, 97, 34, 58, 32, 34]
   \<and> unwrap ascii_runtime (fenced_plain quoted_fence_payload) = Some [123, 34, 97, 34, 58, 32, 34]
   \<and> parse_reply ascii_runtime
        (quiet_env\<lparr>json_loads := decode_only quoted_fence_payload quoted_fence_value\<rparr>)
        quoted_fence_payload
       = Some quoted_fence_value
   \<and> parse_reply ascii_runtime
        (quiet_env\<lparr>json_loads := decode_only quoted_fence_payload quoted_fence_value\<rparr>)
        (fenced_json quoted_fence_payload) = None
   \<and> parse_reply ascii_runtime
        (quiet_env\<lparr>json_loads := decode_only quoted_fence_payload quoted_fence_value\<rparr>)
        (fenced_plain quoted_fence_payload) = None"
proof -
  have 1: "unwrap ascii_runtime quoted_fence_payload = Some quoted_fence_payload"
    by (simp add: unwrap_def quoted_fence_payload_def fence_def fence_json_def asc_def strip_def
        ascii_runtime_space ascii_space_def startswith_def)
  have 2: "unwrap ascii_runtime (fenced_json quoted_fence_payload) = Some [123, 34, 97, 34, 58, 32, 34]"
    by (simp add: unwrap_def fenced_json_def quoted_fence_payload_def fence_def fence_json_def
        asc_def strip_def ascii_runtime_space ascii_space_def startswith_def split_def item_def)
  have 3: "unwrap ascii_runtime (fenced_plain quoted_fence_payload) = Some [123, 34, 97, 34, 58, 32, 34]"
    by (simp add: unwrap_def fenced_plain_def quoted_fence_payload_def fence_def fence_json_def
        asc_def strip_def ascii_runtime_space ascii_space_def startswith_def split_def item_def)
  have 4: "[123, 34, 97, 34, 58, 32, 34] \<noteq> quoted_fence_payload"
    by (simp add: quoted_fence_payload_def fence_def)
  show ?thesis using 1 2 3 4 by (simp add: parse_reply_def decode_only_def)
qed


text \<open>The theorem at the payload \<open>{}\<close> with a space on each side.\<close>

theorem unwrap_fence_witness:
  "conformant ascii_runtime \<and> \<not> contains (asc '' {} '') fence
   \<and> unwrap ascii_runtime (asc '' {} '') = Some (asc ''{}'')
   \<and> unwrap ascii_runtime (fenced_json (asc '' {} '')) = Some (asc ''{}'')
   \<and> unwrap ascii_runtime (fenced_plain (asc '' {} '')) = Some (asc ''{}'')
   \<and> parse_reply ascii_runtime quiet_env (fenced_json (asc '' {} '')) = Some (JObj [])
   \<and> parse_reply ascii_runtime quiet_env (fenced_plain (asc '' {} '')) = Some (JObj [])"
proof -
  have c: "conformant ascii_runtime" by (rule conformant_ascii_runtime)
  have n: "\<not> contains (asc '' {} '') fence"
    by (simp add: asc_def fence_def startswith_def)
  have s: "strip ascii_runtime (asc '' {} '') = asc ''{}''"
    by (simp add: strip_def asc_def ascii_runtime_space ascii_space_def)
  have l: "json_loads quiet_env (asc ''{}'') = Some (JObj [])"
    by (simp add: quiet_env_def decode_only_def)
  show ?thesis
    using unwrap_fence_invariant [of ascii_runtime "asc '' {} ''" quiet_env] c n s l by simp
qed

subsection \<open>C3: every expected field is present\<close>

text \<open>
  C3. When a normalizer accepts a reply, the decoded reply is a JSON object and the
  record has exactly the expected keys, in the order of the source. Every raw field is
  \<open>extracted.get(k, '')\<close>: the empty string when the key is absent from the reply, and
  otherwise the value of the reply unchanged, whatever its type. The fields the
  normalizer computes (document type, derived fields, time stamp) are strings.
\<close>

theorem record_fields_defaulted:
  "normalize_reply kind R E text = Some r \<longrightarrow>
     (\<exists>kvs. parse_reply R E text = Some (JObj kvs)
        \<and> map fst r = map asc (record_keys kind)
        \<and> (\<forall>k\<in>set (raw_fields kind).
              map_of r (asc k) = Some (upstream kvs k)
              \<and> (map_of kvs (asc k) = None \<longrightarrow> map_of r (asc k) = Some (JStr [])))
        \<and> (\<forall>k\<in>set (record_keys kind) - set (raw_fields kind). is_str (map_of r (asc k))))"
proof
  assume a: "normalize_reply kind R E text = Some r"
  then obtain j where p: "parse_reply R E text = Some j" and b: "build_record kind R E j = Some r"
    by (auto simp add: normalize_reply_def bind_eq_Some_conv)
  obtain kvs where j: "j = JObj kvs" using build_record_not_obj [OF b] by blast
  note s = record_shape [OF b [unfolded j]]
  have "\<forall>k\<in>set (raw_fields kind).
          map_of r (asc k) = Some (upstream kvs k)
          \<and> (map_of kvs (asc k) = None \<longrightarrow> map_of r (asc k) = Some (JStr []))"
    using s(2) upstream_absent [of kvs] by simp
  then show "\<exists>kvs. parse_reply R E text = Some (JObj kvs)
        \<and> map fst r = map asc (record_keys kind)
        \<and> (\<forall>k\<in>set (raw_fields kind).
              map_of r (asc k) = Some (upstream kvs k)
              \<and> (map_of kvs (asc k) = None \<longrightarrow> map_of r (asc k) = Some (JStr [])))
        \<and> (\<forall>k\<in>set (record_keys kind) - set (raw_fields kind). is_str (map_of r (asc k)))"
    using p j s(1) s(3) by (intro exI [of _ kvs]) (simp add: upstream_absent)
qed

text \<open>
  Not every field is a string: a reply with \<open>bank_name\<close> \<open>null\<close> is accepted and the
  record carries \<open>None\<close> under \<open>bank_name\<close> (while the absent \<open>payee_name\<close> is the
  empty string).
\<close>

theorem record_fields_counterexample:
  "map_option (\<lambda>r. (map_of r (asc ''bank_name''), is_str (map_of r (asc ''bank_name'')),
                     map_of r (asc ''payee_name'')))
     (normalize_reply Cheque ascii_runtime null_bank_env null_bank_reply)
     = Some (Some JNull, False, Some (JStr []))"
proof -
  have "parse_reply ascii_runtime null_bank_env null_bank_reply = Some (JObj [(asc ''bank_name'', JNull)])"
    by (simp add: parse_reply_def unwrap_null_bank_reply null_bank_env_def decode_only_def)
  moreover have "\<exists>r. cheque_record ascii_runtime null_bank_env (JObj [(asc ''bank_name'', JNull)]) = Some r
      \<and> map_of r (asc ''bank_name'') = Some JNull \<and> map_of r (asc ''payee_name'') = Some (JStr [])"
    unfolding cheque_record_obj by (simp add: upstream_def helpers_empty)
  ultimately show ?thesis
    by (auto simp add: normalize_reply_def is_str_def)
qed

text \<open>The theorem at the same reply.\<close>

theorem record_fields_witness:
  "map_option (\<lambda>r. (map fst r = map asc (record_keys Cheque), map_of r (asc ''payee_name''),
                     map_of r (asc ''bank_name''), is_str (map_of r (asc ''cheque_number''))))
     (normalize_reply Cheque ascii_runtime null_bank_env null_bank_reply)
     = Some (True, Some (JStr []), Some JNull, True)"
proof -
  have p: "parse_reply ascii_runtime null_bank_env null_bank_reply = Some (JObj [(asc ''bank_name'', JNull)])"
    by (simp add: parse_reply_def unwrap_null_bank_reply null_bank_env_def decode_only_def)
  obtain r where r: "normalize_reply Cheque ascii_runtime null_bank_env null_bank_reply = Some r"
    unfolding normalize_reply_def p by (simp add: cheque_record_obj helpers_empty upstream_def)
  have "map fst r = map asc (record_keys Cheque)
        \<and> map_of r (asc ''payee_name'') = Some (JStr [])
        \<and> map_of r (asc ''bank_name'') = Some JNull
        \<and> is_str (map_of r (asc ''cheque_number''))"
    using record_fields_defaulted [of Cheque ascii_runtime null_bank_env null_bank_reply r] r p
    by (simp add: raw_fields_simps computed_keys upstream_def)
  then show ?thesis using r by simp
qed


subsection \<open>C4: derived fields are recomputed\<close>




subsection \<open>C5: the full address\<close>




end
